theory Spec2Isabelle
  imports Complex_Main "HOL-Library.Monad_Syntax" "HOL-Library.Multiset"
begin

section \<open>Python values, errors and string primitives\<close>

text \<open>
  Exceptions are values: every \<^verbatim>\<open>raise\<close> of the source, and every exception a
  library call of the source can raise on the inputs modelled here, is an \<open>Inl\<close> result.
  Messages the repository builds itself are reproduced in full; for exceptions raised by
  the Python library only the fixed part of the message is kept.
\<close>

datatype py_error =
    ValueError string
  | KeyError string
  | IndexError
  | AttributeError
  | ZeroDivisionError
  | UnknownTimeZoneError string
  | FetchRequestError string

type_synonym 'a result = "py_error + 'a"

fun bind_result :: "'a result \<Rightarrow> ('a \<Rightarrow> 'b result) \<Rightarrow> 'b result" where
  "bind_result (Inl e) f = Inl e"
| "bind_result (Inr x) f = f x"

definition is_digit :: "char \<Rightarrow> bool" where
  "is_digit c = (c \<in> set ''0123456789'')"

definition digit_val :: "char \<Rightarrow> nat" where
  "digit_val c = of_char c - 48"

text \<open>Value of a run of decimal digits, most significant first.\<close>

definition digits_val :: "string \<Rightarrow> nat" where
  "digits_val ds = foldl (\<lambda>acc c. acc * 10 + digit_val c) 0 ds"

definition digit_string :: "string \<Rightarrow> bool" where
  "digit_string ds = (ds \<noteq> [] \<and> list_all is_digit ds)"

text \<open>\<^verbatim>\<open>str(n)\<close> for a non-negative integer, as an f-string interpolates it.\<close>

fun str_nat :: "nat \<Rightarrow> string" where
  "str_nat n = (if n < 10 then [''0123456789'' ! n]
                else str_nat (n div 10) @ [''0123456789'' ! (n mod 10)])"

declare str_nat.simps [simp del]


text \<open>
  A character stands for a code point below 256; text with other code points is not
  modelled. \<^verbatim>\<open>str.strip()\<close> removes from both ends the characters for which
  \<^verbatim>\<open>str.isspace\<close> holds: tab to carriage return, the separators 28 to 31, the space,
  next line (133) and the no-break space (160).
\<close>

definition is_space :: "char \<Rightarrow> bool" where
  "is_space c = (of_char c \<in> {9, 10, 11, 12, 13, 28, 29, 30, 31, 32, 133, 160 :: nat})"

definition strip :: "string \<Rightarrow> string" where
  "strip s = rev (dropWhile is_space (rev (dropWhile is_space s)))"

text \<open>
  \<^verbatim>\<open>int(s)\<close> in base 10: surrounding whitespace is ignored, one sign is allowed, and
  single underscores may separate digits. Anything else raises ValueError. The
  whitespace \<^verbatim>\<open>int\<close> ignores is tab to carriage return and the space, and the two
  whitespace characters from 127 on (they are turned into spaces first); the separators
  28 to 31 are not ignored.
\<close>

definition is_int_space :: "char \<Rightarrow> bool" where
  "is_int_space c = (of_char c \<in> {9, 10, 11, 12, 13, 32, 133, 160 :: nat})"

definition int_strip :: "string \<Rightarrow> string" where
  "int_strip s = rev (dropWhile is_int_space (rev (dropWhile is_int_space s)))"

fun parse_digits :: "nat \<Rightarrow> string \<Rightarrow> nat option" where
  "parse_digits acc [] = Some acc"
| "parse_digits acc (c # cs) =
     (if is_digit c then parse_digits (acc * 10 + digit_val c) cs
      else if c = CHR ''_'' then
        (case cs of
           [] \<Rightarrow> None
         | d # ds \<Rightarrow> if is_digit d then parse_digits (acc * 10 + digit_val d) ds else None)
      else None)"

definition parse_decimal :: "string \<Rightarrow> nat option" where
  "parse_decimal s =
     (case s of
        [] \<Rightarrow> None
      | c # cs \<Rightarrow> if is_digit c then parse_digits (digit_val c) cs else None)"

definition py_int :: "string \<Rightarrow> int result" where
  "py_int s =
     (let t = int_strip s;
          r = (case t of
                 [] \<Rightarrow> None
               | c # cs \<Rightarrow>
                   if c = CHR ''+'' then map_option int (parse_decimal cs)
                   else if c = CHR ''-'' then map_option (\<lambda>n. - int n) (parse_decimal cs)
                   else map_option int (parse_decimal t))
      in case r of
           None \<Rightarrow> Inl (ValueError ''invalid literal for int() with base 10'')
         | Some i \<Rightarrow> Inr i)"

text \<open>\<^verbatim>\<open>s.split(c)\<close> for a one-character separator: never an empty list.\<close>

fun split_char :: "char \<Rightarrow> string \<Rightarrow> string list" where
  "split_char c [] = [[]]"
| "split_char c (x # xs) =
     (if x = c then [] # split_char c xs
      else (case split_char c xs of
              [] \<Rightarrow> [[x]]
            | p # ps \<Rightarrow> (x # p) # ps))"

text \<open>\<^verbatim>\<open>a, b = s.split(c)\<close>: unpacking raises ValueError unless there are exactly two parts.\<close>

definition split_pair :: "char \<Rightarrow> string \<Rightarrow> (string \<times> string) result" where
  "split_pair c s =
     (case split_char c s of
        [a, b] \<Rightarrow> Inr (a, b)
      | [a] \<Rightarrow> Inl (ValueError ''not enough values to unpack'')
      | _ \<Rightarrow> Inl (ValueError ''too many values to unpack''))"

text \<open>\<^verbatim>\<open>s.zfill(w)\<close>: zeros are inserted after a leading sign, if there is one.\<close>

definition zfill :: "nat \<Rightarrow> string \<Rightarrow> string" where
  "zfill w s =
     (if w \<le> length s then s
      else (case s of
              c # cs \<Rightarrow>
                if c = CHR ''+'' \<or> c = CHR ''-''
                then c # replicate (w - length s) CHR ''0'' @ cs
                else replicate (w - length s) CHR ''0'' @ s
            | [] \<Rightarrow> replicate w CHR ''0''))"

definition startswith :: "string \<Rightarrow> string \<Rightarrow> bool" where
  "startswith s p = (take (length p) s = p)"


section \<open>functions/date.py\<close>

subsection \<open>convert_iso8601_duration_to_seconds\<close>

definition convert_iso8601_duration_to_seconds :: "string \<Rightarrow> int result" where
  "convert_iso8601_duration_to_seconds iso8601_duration =
     (let d0 = (if startswith iso8601_duration ''PT'' then drop 2 iso8601_duration
                else iso8601_duration)
      in bind_result
           (if CHR ''H'' \<in> set d0
            then bind_result (split_pair CHR ''H'' d0)
                   (\<lambda>(hours_part, rest). bind_result (py_int hours_part) (\<lambda>h. Inr (h, rest)))
            else Inr (0, d0))
           (\<lambda>(hours, d1).
      bind_result
           (if CHR ''M'' \<in> set d1
            then bind_result (split_pair CHR ''M'' d1)
                   (\<lambda>(minutes_part, rest). bind_result (py_int minutes_part) (\<lambda>m. Inr (m, rest)))
            else Inr (0, d1))
           (\<lambda>(minutes, d2).
      bind_result
           (if CHR ''S'' \<in> set d2
            then py_int (filter (\<lambda>c. c \<noteq> CHR ''S'') d2)
            else Inr 0)
           (\<lambda>seconds. Inr (hours * 3600 + minutes * 60 + seconds)))))"

text \<open>
  The strings the duration claim ranges over: the marker \<^verbatim>\<open>PT\<close> followed by an
  optional hour, minute and second component, each a non-empty run of digits and its
  unit letter.
\<close>

definition iso_component :: "string option \<Rightarrow> char \<Rightarrow> string" where
  "iso_component part unit_letter = (case part of None \<Rightarrow> [] | Some ds \<Rightarrow> ds @ [unit_letter])"

definition iso_value :: "string option \<Rightarrow> int" where
  "iso_value part = (case part of None \<Rightarrow> 0 | Some ds \<Rightarrow> int (digits_val ds))"

definition iso_part_ok :: "string option \<Rightarrow> bool" where
  "iso_part_ok part = (case part of None \<Rightarrow> True | Some ds \<Rightarrow> digit_string ds)"

subsection \<open>datetime values\<close>

text \<open>
  A \<^verbatim>\<open>datetime\<close> is its calendar fields and an optional time zone. A pytz zone of the
  \<^verbatim>\<open>Etc/GMT\<close> family is a fixed offset, kept here as the zone name and the offset from
  UTC in minutes. The constructor checks its fields as Python's does: years 1 to 9999,
  months 1 to 12, a day that exists in the month.
\<close>

datatype tzinfo = StaticTz string int

record datetime =
  dt_year :: int
  dt_month :: int
  dt_day :: int
  dt_hour :: int
  dt_minute :: int
  dt_second :: int
  dt_tzinfo :: "tzinfo option"

definition is_leap :: "int \<Rightarrow> bool" where
  "is_leap y = (y mod 4 = 0 \<and> (y mod 100 \<noteq> 0 \<or> y mod 400 = 0))"

definition days_in_month :: "int \<Rightarrow> int \<Rightarrow> int" where
  "days_in_month y m =
     (if m = 2 then (if is_leap y then 29 else 28)
      else if m = 4 \<or> m = 6 \<or> m = 9 \<or> m = 11 then 30
      else 31)"

definition new_datetime ::
  "int \<Rightarrow> int \<Rightarrow> int \<Rightarrow> int \<Rightarrow> int \<Rightarrow> int \<Rightarrow> tzinfo option \<Rightarrow> datetime result" where
  "new_datetime y m d hh mm ss tz =
     (if y < 1 \<or> 9999 < y then Inl (ValueError ''year is out of range'')
      else if m < 1 \<or> 12 < m then Inl (ValueError ''month must be in 1..12'')
      else if d < 1 \<or> days_in_month y m < d then Inl (ValueError ''day is out of range for month'')
      else if hh < 0 \<or> 23 < hh then Inl (ValueError ''hour must be in 0..23'')
      else if mm < 0 \<or> 59 < mm then Inl (ValueError ''minute must be in 0..59'')
      else if ss < 0 \<or> 59 < ss then Inl (ValueError ''second must be in 0..59'')
      else Inr \<lparr>dt_year = y, dt_month = m, dt_day = d, dt_hour = hh, dt_minute = mm,
                dt_second = ss, dt_tzinfo = tz\<rparr>)"

text \<open>\<^verbatim>\<open>dt.replace(year=y, month=m, tzinfo=tz)\<close>: a new, checked datetime.\<close>

definition replace_year_month_tz :: "datetime \<Rightarrow> int \<Rightarrow> int \<Rightarrow> tzinfo option \<Rightarrow> datetime result" where
  "replace_year_month_tz dt y m tz =
     new_datetime y m (dt_day dt) (dt_hour dt) (dt_minute dt) (dt_second dt) tz"

text \<open>
  \<^verbatim>\<open>pytz.timezone(name)\<close> for the two zones the code names. POSIX reverses the sign:
  \<^verbatim>\<open>Etc/GMT-14\<close> is fourteen hours ahead of UTC, \<^verbatim>\<open>Etc/GMT+12\<close> twelve hours behind.
\<close>

definition timezone :: "string \<Rightarrow> tzinfo result" where
  "timezone name =
     (if name = ''Etc/GMT-14'' then Inr (StaticTz name 840)
      else if name = ''Etc/GMT+12'' then Inr (StaticTz name (- 720))
      else Inl (UnknownTimeZoneError name))"

subsection \<open>parse_votes_csv_timestamp\<close>

text \<open>
  The pattern \<^verbatim>\<open>^(\d+)/(\d+)/(\d+) (\d+):(\d+):(\d+)$\<close>. Every separator is a
  non-digit, so each greedy \<^verbatim>\<open>\d+\<close> takes a whole run of digits and no backtracking
  can succeed where this scan fails. \<open>scan_timestamp\<close> returns the six groups and the
  text left after the last one.
\<close>

definition span_digits :: "string \<Rightarrow> (string \<times> string) option" where
  "span_digits s =
     (let ds = takeWhile is_digit s
      in if ds = [] then None else Some (ds, dropWhile is_digit s))"

fun expect_char :: "char \<Rightarrow> string \<Rightarrow> string option" where
  "expect_char c [] = None"
| "expect_char c (x # xs) = (if x = c then Some xs else None)"

type_synonym timestamp_fields = "string \<times> string \<times> string \<times> string \<times> string \<times> string"

definition scan_timestamp :: "string \<Rightarrow> (timestamp_fields \<times> string) option" where
  "scan_timestamp s =
     do {
       (mo, r1) \<leftarrow> span_digits s;
       r2 \<leftarrow> expect_char CHR ''/'' r1;
       (d, r3) \<leftarrow> span_digits r2;
       r4 \<leftarrow> expect_char CHR ''/'' r3;
       (y, r5) \<leftarrow> span_digits r4;
       r6 \<leftarrow> expect_char CHR '' '' r5;
       (hh, r7) \<leftarrow> span_digits r6;
       r8 \<leftarrow> expect_char CHR '':'' r7;
       (mm, r9) \<leftarrow> span_digits r8;
       r10 \<leftarrow> expect_char CHR '':'' r9;
       (ss, r11) \<leftarrow> span_digits r10;
       Some ((mo, d, y, hh, mm, ss), r11)
     }"

text \<open>\<^verbatim>\<open>re.match\<close> with the pattern: \<^verbatim>\<open>$\<close> also matches before one final newline.\<close>

definition re_match_timestamp :: "string \<Rightarrow> timestamp_fields option" where
  "re_match_timestamp s =
     (case scan_timestamp s of
        None \<Rightarrow> None
      | Some (comps, rest) \<Rightarrow> if rest = [] \<or> rest = [CHR 0x0A] then Some comps else None)"

text \<open>
  \<^verbatim>\<open>datetime.strptime(s, "%m/%d/%Y %H:%M:%S")\<close> on the strings it is given here: six
  runs of digits with the separators of the format. A field matches its directive when
  it has at most two digits (exactly four for the year) and its value is in the
  directive's range. The last directive always matches some digits of its field, so a
  seconds field it does not match as a whole leaves unconverted data. The fields then go
  through the datetime constructor.
\<close>

definition strptime_mdY_HMS :: "string \<Rightarrow> datetime result" where
  "strptime_mdY_HMS s =
     (case scan_timestamp s of
        None \<Rightarrow> Inl (ValueError ''time data does not match format'')
      | Some ((mo, d, y, hh, mm, ss), rest) \<Rightarrow>
          if length mo \<le> 2 \<and> 1 \<le> digits_val mo \<and> digits_val mo \<le> 12
             \<and> length d \<le> 2 \<and> 1 \<le> digits_val d \<and> digits_val d \<le> 31
             \<and> length y = 4
             \<and> length hh \<le> 2 \<and> digits_val hh \<le> 23
             \<and> length mm \<le> 2 \<and> digits_val mm \<le> 59
          then (if length ss \<le> 2 \<and> digits_val ss \<le> 61 \<and> rest = []
                then new_datetime (int (digits_val y)) (int (digits_val mo)) (int (digits_val d))
                       (int (digits_val hh)) (int (digits_val mm)) (int (digits_val ss)) None
                else Inl (ValueError ''unconverted data remains''))
          else Inl (ValueError ''time data does not match format''))"

text \<open>
  The text \<^verbatim>\<open>f"{month}/{day}/{year} {hour}:{minute}:{second}"\<close> of six components, and
  the components after \<^verbatim>\<open>zfill\<close>.
\<close>

definition votes_timestamp_text :: "timestamp_fields \<Rightarrow> string" where
  "votes_timestamp_text comps =
     (case comps of (mo, d, y, hh, mm, ss) \<Rightarrow>
        mo @ ''/'' @ d @ ''/'' @ y @ '' '' @ hh @ '':'' @ mm @ '':'' @ ss)"

definition zero_padded :: "timestamp_fields \<Rightarrow> timestamp_fields" where
  "zero_padded comps =
     (case comps of (mo, d, y, hh, mm, ss) \<Rightarrow>
        (zfill 2 mo, zfill 2 d, zfill 4 y, zfill 2 hh, zfill 2 mm, zfill 2 ss))"

text \<open>
  The check \<^verbatim>\<open>len(date_components) != 6\<close> of the source can never hold (the pattern
  has six groups), so it has no branch here.
\<close>

definition parse_votes_csv_timestamp :: "string \<Rightarrow> datetime result" where
  "parse_votes_csv_timestamp timestamp0 =
     (let timestamp = strip timestamp0
      in case re_match_timestamp timestamp of
           None \<Rightarrow>
             Inl (ValueError (''Cannot parse votes CSV timestamp '' @ [CHR 0x22] @ timestamp
                              @ [CHR 0x22] @ ''; invalid format''))
         | Some date_components \<Rightarrow>
             let processed_timestamp = votes_timestamp_text (zero_padded date_components)
             in bind_result (strptime_mdY_HMS processed_timestamp)
                  (\<lambda>dt. Inr (dt\<lparr>dt_tzinfo := None\<rparr>)))"

text \<open>
  The shape the timestamp claim speaks of: six non-empty runs of digits, separated by
  slash, slash, space, colon, colon.
\<close>

definition timestamp_shape :: "timestamp_fields \<Rightarrow> bool" where
  "timestamp_shape comps =
     (case comps of (mo, d, y, hh, mm, ss) \<Rightarrow>
        digit_string mo \<and> digit_string d \<and> digit_string y
        \<and> digit_string hh \<and> digit_string mm \<and> digit_string ss)"

subsection \<open>get_month_year_bounds\<close>

definition get_month_year_bounds :: "int \<Rightarrow> int \<Rightarrow> bool \<Rightarrow> (datetime \<times> datetime) result" where
  "get_month_year_bounds month year lenient =
     bind_result
       (if lenient
        then bind_result (timezone ''Etc/GMT-14'') (\<lambda>lo.
             bind_result (timezone ''Etc/GMT+12'') (\<lambda>up. Inr (Some lo, Some up)))
        else Inr (None, None))
       (\<lambda>(lower_timezone, upper_timezone).
     bind_result (new_datetime year month 1 0 0 0 lower_timezone) (\<lambda>lower_bound.
     bind_result
       (if month < 12
        then replace_year_month_tz lower_bound (dt_year lower_bound) (dt_month lower_bound + 1)
               upper_timezone
        else replace_year_month_tz lower_bound (dt_year lower_bound + 1) 1 upper_timezone)
       (\<lambda>upper_bound. Inr (lower_bound, upper_bound))))"

text \<open>The interval the month-bounds claim describes.\<close>

definition first_instant :: "int \<Rightarrow> int \<Rightarrow> tzinfo option \<Rightarrow> datetime" where
  "first_instant y m tz =
     \<lparr>dt_year = y, dt_month = m, dt_day = 1, dt_hour = 0, dt_minute = 0, dt_second = 0,
      dt_tzinfo = tz\<rparr>"

definition following_month :: "int \<Rightarrow> int \<Rightarrow> int \<times> int" where
  "following_month m y = (if m = 12 then (1, y + 1) else (m + 1, y))"

text \<open>
  What the timestamp claim compares with: a run of digits padded with zeros on the left
  to a given width, the datetime six runs of digits denote, and whether they denote one
  (at most two digits each, four for the year, and values that make a date and a time).
\<close>

definition pad_zeros :: "nat \<Rightarrow> string \<Rightarrow> string" where
  "pad_zeros w ds = replicate (w - length ds) CHR ''0'' @ ds"

definition timestamp_value :: "timestamp_fields \<Rightarrow> datetime" where
  "timestamp_value comps =
     (case comps of (mo, d, y, hh, mm, ss) \<Rightarrow>
        \<lparr>dt_year = int (digits_val y), dt_month = int (digits_val mo), dt_day = int (digits_val d),
         dt_hour = int (digits_val hh), dt_minute = int (digits_val mm),
         dt_second = int (digits_val ss), dt_tzinfo = None\<rparr>)"

definition timestamp_valid :: "timestamp_fields \<Rightarrow> bool" where
  "timestamp_valid comps =
     (case comps of (mo, d, y, hh, mm, ss) \<Rightarrow>
        length mo \<le> 2 \<and> length d \<le> 2 \<and> length y \<le> 4
        \<and> length hh \<le> 2 \<and> length mm \<le> 2 \<and> length ss \<le> 2
        \<and> 1 \<le> digits_val y
        \<and> 1 \<le> digits_val mo \<and> digits_val mo \<le> 12
        \<and> 1 \<le> digits_val d
        \<and> int (digits_val d) \<le> days_in_month (int (digits_val y)) (int (digits_val mo))
        \<and> digits_val hh \<le> 23 \<and> digits_val mm \<le> 59 \<and> digits_val ss \<le> 59)"

section \<open>Python dictionaries and dynamically typed values\<close>

text \<open>
  A \<^verbatim>\<open>dict\<close> keeps its keys in insertion order, and the ranking iterates over
  dictionaries, so a dictionary is an association list with distinct keys: assignment
  replaces the value of a key in place or appends a new key, \<^verbatim>\<open>del\<close> removes the key,
  lookup is \<open>map_of\<close>.
\<close>

type_synonym ('k, 'v) dict = "('k \<times> 'v) list"

fun dict_set :: "'k \<Rightarrow> 'v \<Rightarrow> ('k, 'v) dict \<Rightarrow> ('k, 'v) dict" where
  "dict_set k v [] = [(k, v)]"
| "dict_set k v ((k', v') # d) = (if k' = k then (k, v) # d else (k', v') # dict_set k v d)"

definition dict_del :: "'k \<Rightarrow> ('k, 'v) dict \<Rightarrow> ('k, 'v) dict" where
  "dict_del k d = filter (\<lambda>kv. fst kv \<noteq> k) d"

text \<open>
  Values whose Python type is not fixed by the code: \<^verbatim>\<open>None\<close>, a string or an integer
  (durations are whole seconds).
\<close>

datatype pyval = PyNone | PyStr string | PyInt int

text \<open>A dictionary with text keys, such as the metadata of one video.\<close>

type_synonym info = "(string, pyval) dict"

text \<open>\<^verbatim>\<open>d[k]\<close>, which raises KeyError when the key is missing.\<close>

definition lookup :: "(string, 'v) dict \<Rightarrow> string \<Rightarrow> 'v result" where
  "lookup d k = (case map_of d k of None \<Rightarrow> Inl (KeyError k) | Some v \<Rightarrow> Inr v)"

section \<open>functions/top_10_calc.py\<close>

subsection \<open>get_titles_to_urls_mapping\<close>

text \<open>
  The outer \<^verbatim>\<open>zip(..., strict=True)\<close> raises ValueError once one table runs out before
  the other, after the rows they share have been processed. The inner \<^verbatim>\<open>zip\<close> is not
  strict: like \<open>zip\<close> of HOL it stops at the end of the shorter row.
\<close>

fun titles_to_urls_rows ::
  "string list list \<Rightarrow> string list list \<Rightarrow> (string, string) dict \<Rightarrow> (string, string) dict result" where
  "titles_to_urls_rows [] [] titles_to_urls = Inr titles_to_urls"
| "titles_to_urls_rows (title_row # title_rows) (url_row # url_rows) titles_to_urls =
     titles_to_urls_rows title_rows url_rows
       (fold (\<lambda>(title, url) d. dict_set title url d) (zip title_row url_row) titles_to_urls)"
| "titles_to_urls_rows (title_row # title_rows) [] titles_to_urls =
     Inl (ValueError ''zip() argument 2 is shorter than argument 1'')"
| "titles_to_urls_rows [] (url_row # url_rows) titles_to_urls =
     Inl (ValueError ''zip() argument 2 is longer than argument 1'')"

definition get_titles_to_urls_mapping ::
  "string list list \<Rightarrow> string list list \<Rightarrow> (string, string) dict result" where
  "get_titles_to_urls_mapping title_rows url_rows = titles_to_urls_rows title_rows url_rows []"

text \<open>Two tables have the same shape: as many rows, and corresponding rows as long.\<close>

definition same_shape :: "string list list \<Rightarrow> string list list \<Rightarrow> bool" where
  "same_shape title_rows url_rows = (map length title_rows = map length url_rows)"

subsection \<open>get_titles_to_uploaders\<close>

text \<open>
  \<^verbatim>\<open>videos_data\<close> maps a URL to the metadata dictionary of its video, or to \<^verbatim>\<open>None\<close>
  when none was fetched. \<^verbatim>\<open>videos_data[url]\<close> raises KeyError for a URL that is not a
  key, and \<^verbatim>\<open>video_data["uploader"]\<close> for a metadata dictionary without that key; the
  value \<^verbatim>\<open>None\<close> gives the uploader \<^verbatim>\<open>None\<close>.
\<close>

fun titles_to_uploaders_items ::
  "(string, string) dict \<Rightarrow> (string, info option) dict \<Rightarrow> (string, pyval) dict
     \<Rightarrow> (string, pyval) dict result" where
  "titles_to_uploaders_items [] videos_data titles_to_uploaders = Inr titles_to_uploaders"
| "titles_to_uploaders_items ((title, url) # items) videos_data titles_to_uploaders =
     bind_result (lookup videos_data url) (\<lambda>video_data.
     bind_result
       (case video_data of
          None \<Rightarrow> Inr PyNone
        | Some vd \<Rightarrow> lookup vd ''uploader'')
       (\<lambda>uploader.
          titles_to_uploaders_items items videos_data
            (dict_set title uploader titles_to_uploaders)))"

definition get_titles_to_uploaders ::
  "(string, string) dict \<Rightarrow> (string, info option) dict \<Rightarrow> (string, pyval) dict result" where
  "get_titles_to_uploaders titles_to_urls videos_data =
     titles_to_uploaders_items titles_to_urls videos_data []"

subsection \<open>calc_ranked_records\<close>

text \<open>
  The percentage of a title is \<^verbatim>\<open>(count / counted_voters) * 100\<close>, a float in the source
  and the exact rational here; the record keeps this value, its rendering with four
  decimals is not modelled. The ranking only compares percentages for equality and
  order.
\<close>

record ranked_record =
  Title :: string
  Uploader :: pyval
  Percentage :: rat
  Total_Votes :: nat
  URL :: string
  Notes :: string

definition count_title :: "(string, nat) dict \<Rightarrow> string \<Rightarrow> (string, nat) dict" where
  "count_title title_counts title =
     (let tc = (if map_of title_counts title = None then dict_set title 0 title_counts
                else title_counts)
      in case map_of tc title of
           None \<Rightarrow> tc
         | Some c \<Rightarrow> dict_set title (c + 1) tc)"

definition tally :: "string list list \<Rightarrow> (string, nat) dict" where
  "tally title_rows =
     fold (\<lambda>title_row tc. fold (\<lambda>title tc'. count_title tc' title) title_row tc) title_rows []"

definition count_votes :: "string list list \<Rightarrow> (string, nat) dict" where
  "count_votes title_rows =
     (let title_counts = tally title_rows
      in if map_of title_counts [] \<noteq> None then dict_del [] title_counts else title_counts)"

definition vote_count_of :: "string list \<Rightarrow> nat" where
  "vote_count_of title_row = length (filter (\<lambda>title. title \<noteq> []) title_row)"

definition ballot_error :: "nat \<Rightarrow> nat \<Rightarrow> py_error" where
  "ballot_error vote_count i =
     ValueError (''Only '' @ str_nat vote_count @ '' votes included in ballot line ~''
                 @ str_nat (i + 2) @ '' when at least 5 are required'')"

fun count_voters :: "nat \<Rightarrow> nat \<Rightarrow> string list list \<Rightarrow> nat result" where
  "count_voters i counted_voters [] = Inr counted_voters"
| "count_voters i counted_voters (title_row # title_rows) =
     (let vote_count = vote_count_of title_row
      in if vote_count \<ge> 5 then count_voters (i + 1) (counted_voters + 1) title_rows
         else if vote_count \<noteq> 0 then Inl (ballot_error vote_count i)
         else count_voters (i + 1) counted_voters title_rows)"

definition percentage_of :: "nat \<Rightarrow> nat \<Rightarrow> rat" where
  "percentage_of c counted_voters = (of_nat c / of_nat counted_voters) * 100"

text \<open>
  The comprehension divides once for each title: with no counted voter it raises
  ZeroDivisionError at the first title, and nothing is divided when there is no title.
\<close>

definition calc_title_percentages :: "(string, nat) dict \<Rightarrow> nat \<Rightarrow> (string, rat) dict result" where
  "calc_title_percentages title_counts counted_voters =
     (if title_counts = [] then Inr []
      else if counted_voters = 0 then Inl ZeroDivisionError
      else Inr (map (\<lambda>(title, c). (title, percentage_of c counted_voters)) title_counts))"

definition add_to_group :: "string \<times> rat \<Rightarrow> (rat, string list) dict \<Rightarrow> (rat, string list) dict" where
  "add_to_group item percentage_groups =
     (case item of (title, percentage) \<Rightarrow>
        let pg = (if map_of percentage_groups percentage = None
                  then dict_set percentage [] percentage_groups else percentage_groups)
        in case map_of pg percentage of
             None \<Rightarrow> pg
           | Some g \<Rightarrow> dict_set percentage (g @ [title]) pg)"

definition group_by_percentage :: "(string, rat) dict \<Rightarrow> (rat, string list) dict" where
  "group_by_percentage title_percentages = fold add_to_group title_percentages []"

text \<open>\<^verbatim>\<open>sorted(percentage_groups, reverse=True)\<close>: the keys, largest first.\<close>

definition sorted_reverse :: "rat list \<Rightarrow> rat list" where
  "sorted_reverse ps = sort_key uminus ps"

text \<open>
  Modelled from the spec: \<^verbatim>\<open>sample_item_without_replacement\<close> (functions/general.py) is
  not among the sources. The specification says a group is drawn in a uniformly random
  order; the call removes one randomly chosen title from the list and returns it. The
  random draw is a parameter: a number \<open>r\<close>, of which the position \<open>r mod length xs\<close>
  is taken, so every position can be chosen.
\<close>

definition sample_item_without_replacement :: "nat \<Rightarrow> 'a list \<Rightarrow> 'a \<times> 'a list" where
  "sample_item_without_replacement r xs =
     (let i = r mod length xs in (xs ! i, take i xs @ drop (Suc i) xs))"

text \<open>
  The state of the ranking loops: the number of draws made so far, the ranked titles and
  the \<^verbatim>\<open>tie_broken\<close> dictionary. \<open>rng k\<close> is the \<open>k\<close>-th random draw of the run.
\<close>

type_synonym rank_state = "nat \<times> string list \<times> (string, bool) dict"

function sample_group :: "(nat \<Rightarrow> nat) \<Rightarrow> bool \<Rightarrow> string list \<Rightarrow> rank_state \<Rightarrow> rank_state" where
  "sample_group rng tie_break_needed percentage_group (k, ranked_titles, tie_broken) =
     (if length percentage_group > 0
      then (let sampled_title = fst (sample_item_without_replacement (rng k) percentage_group);
                remaining = snd (sample_item_without_replacement (rng k) percentage_group);
                tb = dict_set sampled_title False tie_broken
            in sample_group rng tie_break_needed remaining
                 (k + 1, ranked_titles @ [sampled_title],
                  if tie_break_needed then dict_set sampled_title True tb else tb))
      else (k, ranked_titles, tie_broken))"
  by pat_completeness auto
termination
proof (relation "measure (\<lambda>(rng, tie_break_needed, percentage_group, st). length percentage_group)")
  fix rng :: "nat \<Rightarrow> nat" and tie_break_needed :: bool and percentage_group :: "string list"
    and k :: nat and ranked_titles :: "string list" and tie_broken :: "(string, bool) dict"
    and sampled_title remaining tb
  assume ne: "0 < length percentage_group"
    and r: "remaining = snd (sample_item_without_replacement (rng k) percentage_group)"
  have "rng k mod length percentage_group < length percentage_group"
    using ne by simp
  then have "length remaining < length percentage_group"
    by (simp add: r sample_item_without_replacement_def Let_def)
  then show "((rng, tie_break_needed, remaining, k + 1, ranked_titles @ [sampled_title],
               if tie_break_needed then dict_set sampled_title True tb else tb),
              rng, tie_break_needed, percentage_group, k, ranked_titles, tie_broken)
             \<in> measure (\<lambda>(rng, tie_break_needed, percentage_group, st). length percentage_group)"
    by simp
qed simp

declare sample_group.simps [simp del]

text \<open>
  \<^verbatim>\<open>percentage_groups[percentage]\<close> cannot fail in the source, the percentage being a
  key of the dictionary; here a missing key would give the empty group.
\<close>

definition group_of :: "(rat, string list) dict \<Rightarrow> rat \<Rightarrow> string list" where
  "group_of percentage_groups percentage =
     (case map_of percentage_groups percentage of None \<Rightarrow> [] | Some g \<Rightarrow> g)"

definition rank_titles :: "(nat \<Rightarrow> nat) \<Rightarrow> (rat, string list) dict \<Rightarrow> rat list \<Rightarrow> rank_state" where
  "rank_titles rng percentage_groups sorted_percentages =
     fold (\<lambda>percentage st.
             let percentage_group = group_of percentage_groups percentage;
                 tie_break_needed = (length percentage_group > 1)
             in sample_group rng tie_break_needed percentage_group st)
          sorted_percentages (0, [], [])"

definition tie_note :: string where
  "tie_note = ''Tie broken randomly by computer''"

definition make_record ::
  "(string, pyval) dict \<Rightarrow> (string, rat) dict \<Rightarrow> (string, nat) dict \<Rightarrow> (string, string) dict
     \<Rightarrow> (string, bool) dict \<Rightarrow> string \<Rightarrow> ranked_record result" where
  "make_record titles_to_uploaders title_percentages title_counts titles_to_urls tie_broken title =
     bind_result (lookup titles_to_uploaders title) (\<lambda>uploader.
     bind_result (lookup title_percentages title) (\<lambda>percentage.
     bind_result (lookup title_counts title) (\<lambda>total_votes.
     bind_result (lookup titles_to_urls title) (\<lambda>url.
     bind_result (lookup tie_broken title) (\<lambda>tb.
       Inr \<lparr>Title = title,
            Uploader = (if uploader \<noteq> PyNone then uploader else PyStr []),
            Percentage = percentage,
            Total_Votes = total_votes,
            URL = url,
            Notes = (if tb then tie_note else [])\<rparr>)))))"

fun make_records :: "(string \<Rightarrow> ranked_record result) \<Rightarrow> string list \<Rightarrow> ranked_record list result" where
  "make_records mk [] = Inr []"
| "make_records mk (title # ranked_titles) =
     bind_result (mk title) (\<lambda>record.
     bind_result (make_records mk ranked_titles) (\<lambda>records. Inr (record # records)))"

definition calc_ranked_records ::
  "(nat \<Rightarrow> nat) \<Rightarrow> string list list \<Rightarrow> (string, string) dict \<Rightarrow> (string, pyval) dict
     \<Rightarrow> ranked_record list result" where
  "calc_ranked_records rng title_rows titles_to_urls titles_to_uploaders =
     (let title_counts = count_votes title_rows
      in bind_result (count_voters 0 0 title_rows) (\<lambda>counted_voters.
         bind_result (calc_title_percentages title_counts counted_voters) (\<lambda>title_percentages.
           let percentage_groups = group_by_percentage title_percentages;
               sorted_percentages = sorted_reverse (map fst percentage_groups);
               (k, ranked_titles, tie_broken) = rank_titles rng percentage_groups sorted_percentages
           in make_records
                (make_record titles_to_uploaders title_percentages title_counts titles_to_urls
                   tie_broken)
                ranked_titles)))"

text \<open>
  The ballots the validation accepts: no vote at all, or at least five. The counted
  ballots are those with at least five votes.
\<close>

definition valid_ballot :: "string list \<Rightarrow> bool" where
  "valid_ballot row = (vote_count_of row = 0 \<or> 5 \<le> vote_count_of row)"

definition counted_ballots :: "string list list \<Rightarrow> nat" where
  "counted_ballots rows = length (filter (\<lambda>r. 5 \<le> vote_count_of r) rows)"

text \<open>
  The titles that received a vote, and the condition under which every URL of the
  title-to-URL mapping has usable metadata: an entry in \<^verbatim>\<open>videos_data\<close> that is
  \<^verbatim>\<open>None\<close> or a dictionary with the key \<^verbatim>\<open>uploader\<close>.
\<close>

definition voted_titles :: "string list list \<Rightarrow> string set" where
  "voted_titles title_rows = {title \<in> set (concat title_rows). title \<noteq> []}"

definition has_metadata_entry :: "(string, info option) dict \<Rightarrow> string \<Rightarrow> bool" where
  "has_metadata_entry videos_data url =
     (case map_of videos_data url of
        None \<Rightarrow> False
      | Some None \<Rightarrow> True
      | Some (Some vd) \<Rightarrow> map_of vd ''uploader'' \<noteq> None)"

subsection \<open>get_history\<close>

text \<open>
  Modelled from the spec: the \<^verbatim>\<open>ArchiveRecord\<close> type (classes/typing.py) is not among
  the sources. The specification gives its fields, all of them text: month, year, title,
  uploader, url, percentage, total_votes, notes.
\<close>

record archive_record =
  ar_month :: string
  ar_year :: string
  ar_title :: string
  ar_uploader :: string
  ar_url :: string
  ar_percentage :: string
  ar_total_votes :: string
  ar_notes :: string

text \<open>
  The warning printed through \<^verbatim>\<open>err\<close> when an anniversary has no entries. It names the
  month and year of the date the code builds for it, kept here in place of the message.
\<close>

datatype diagnostic = NoHistoricalEntries datetime

type_synonym month_year_index = "(int \<times> int, archive_record list) dict"

fun index_archive :: "archive_record list \<Rightarrow> month_year_index \<Rightarrow> month_year_index result" where
  "index_archive [] month_year_records = Inr month_year_records"
| "index_archive (archive_record # archive_records) month_year_records =
     bind_result (py_int (ar_month archive_record)) (\<lambda>m.
     bind_result (py_int (ar_year archive_record)) (\<lambda>y.
       let month_year = (m, y);
           idx = (if map_of month_year_records month_year = None
                  then dict_set month_year [] month_year_records else month_year_records)
       in index_archive archive_records
            (case map_of idx month_year of
               None \<Rightarrow> idx
             | Some bucket \<Rightarrow> dict_set month_year (bucket @ [archive_record]) idx)))"

text \<open>
  The body of the \<^verbatim>\<open>except KeyError\<close> branch builds \<^verbatim>\<open>datetime(anni_year, month, 1)\<close> for
  the message; an exception raised there leaves the function.
\<close>

fun history_loop ::
  "int \<Rightarrow> int \<Rightarrow> month_year_index \<Rightarrow> int list
     \<Rightarrow> (int, archive_record list) dict \<times> diagnostic list
     \<Rightarrow> ((int, archive_record list) dict \<times> diagnostic list) result" where
  "history_loop month year month_year_records [] st = Inr st"
| "history_loop month year month_year_records (num_years # anniversaries) (history_records, diags) =
     (let anni_year = year - num_years
      in case map_of month_year_records (month, anni_year) of
           Some bucket \<Rightarrow>
             history_loop month year month_year_records anniversaries
               (dict_set num_years bucket history_records, diags)
         | None \<Rightarrow>
             bind_result (new_datetime anni_year month 1 0 0 0 None) (\<lambda>anni_date.
               history_loop month year month_year_records anniversaries
                 (history_records, diags @ [NoHistoricalEntries anni_date])))"

definition get_history ::
  "archive_record list \<Rightarrow> datetime \<Rightarrow> int list
     \<Rightarrow> ((int, archive_record list) dict \<times> diagnostic list) result" where
  "get_history archive_records from_date anniversaries =
     bind_result (index_archive archive_records []) (\<lambda>month_year_records.
       history_loop (dt_month from_date) (dt_year from_date) month_year_records anniversaries
         ([], []))"

text \<open>An archive record of a given month and year, for examples.\<close>

definition archive_entry :: "string \<Rightarrow> string \<Rightarrow> string \<Rightarrow> archive_record" where
  "archive_entry m y t =
     \<lparr>ar_month = m, ar_year = y, ar_title = t, ar_uploader = [], ar_url = [],
      ar_percentage = [], ar_total_votes = [], ar_notes = []\<rparr>"

section \<open>classes/fetch_services.py\<close>

subsection \<open>Strings and URLs\<close>














subsection \<open>The response of the extraction library\<close>








subsection \<open>YtDlpFetchService.request\<close>

text \<open>
  Modelled from the spec: the \<^verbatim>\<open>VideoData\<close> type (classes/typing.py) is not among the
  sources. The specification gives its fields: title, uploader (text or absent),
  upload date, duration (seconds or absent) and platform.
\<close>

record video_data =
  vd_title :: pyval
  vd_uploader :: pyval
  vd_upload_date :: pyval
  vd_duration :: pyval
  vd_platform :: string










section \<open>Properties of the string primitives\<close>

lemma is_digit_not_space: "is_digit c \<Longrightarrow> \<not> is_space c"
  by (auto simp: is_digit_def is_space_def)

lemma is_digit_not_letter:
  "is_digit c \<Longrightarrow> c \<noteq> CHR ''H'' \<and> c \<noteq> CHR ''M'' \<and> c \<noteq> CHR ''S'' \<and> c \<noteq> CHR ''+'' \<and> c \<noteq> CHR ''-''
     \<and> c \<noteq> CHR ''_'' \<and> c \<noteq> CHR ''/'' \<and> c \<noteq> CHR '':'' \<and> c \<noteq> CHR '' ''"
  by (auto simp: is_digit_def)

lemma strip_no_space:
  assumes "s \<noteq> []" "\<not> is_space (hd s)" "\<not> is_space (last s)"
  shows "strip s = s"
proof -
  from assms have a: "dropWhile is_space s = s" by (cases s) auto
  from assms have "rev s \<noteq> []" "\<not> is_space (hd (rev s))" by (auto simp: hd_rev)
  then have "dropWhile is_space (rev s) = rev s" by (cases "rev s") auto
  with a show ?thesis by (simp add: strip_def)
qed

lemma int_strip_no_space:
  assumes "s \<noteq> []" "\<not> is_int_space (hd s)" "\<not> is_int_space (last s)"
  shows "int_strip s = s"
proof -
  from assms have a: "dropWhile is_int_space s = s" by (cases s) auto
  from assms have "rev s \<noteq> []" "\<not> is_int_space (hd (rev s))" by (auto simp: hd_rev)
  then have "dropWhile is_int_space (rev s) = rev s" by (cases "rev s") auto
  with a show ?thesis by (simp add: int_strip_def)
qed

lemma is_digit_not_int_space: "is_digit c \<Longrightarrow> \<not> is_int_space c"
  by (auto simp: is_digit_def is_int_space_def)

lemma strip_digit_string: "digit_string ds \<Longrightarrow> int_strip ds = ds"
  by (rule int_strip_no_space) (auto simp: digit_string_def list_all_iff is_digit_not_int_space)

lemma parse_digits_all: "list_all is_digit cs \<Longrightarrow> parse_digits acc cs = Some (foldl (\<lambda>a c. a * 10 + digit_val c) acc cs)"
  by (induction cs arbitrary: acc) auto

lemma parse_decimal_digit_string: "digit_string ds \<Longrightarrow> parse_decimal ds = Some (digits_val ds)"
  by (cases ds) (auto simp: digit_string_def parse_decimal_def digits_val_def parse_digits_all)

lemma py_int_digit_string: "digit_string ds \<Longrightarrow> py_int ds = Inr (int (digits_val ds))"
  by (cases ds) (auto simp: py_int_def strip_digit_string parse_decimal_digit_string Let_def digit_string_def dest: is_digit_not_letter)

lemma split_char_absent: "c \<notin> set s \<Longrightarrow> split_char c s = [s]"
  by (induction s) auto

lemma split_char_first: "c \<notin> set a \<Longrightarrow> split_char c (a @ c # b) = a # split_char c b"
  by (induction a) auto

lemma split_pair_once: "c \<notin> set a \<Longrightarrow> c \<notin> set b \<Longrightarrow> split_pair c (a @ c # b) = Inr (a, b)"
  by (simp add: split_pair_def split_char_first split_char_absent)

lemma digit_string_letters:
  "digit_string ds \<Longrightarrow> CHR ''H'' \<notin> set ds \<and> CHR ''M'' \<notin> set ds \<and> CHR ''S'' \<notin> set ds"
  by (auto simp: digit_string_def list_all_iff dest: is_digit_not_letter)

lemma filter_digit_string: "digit_string ds \<Longrightarrow> filter (\<lambda>c. c \<noteq> CHR ''S'') ds = ds"
  using digit_string_letters[of ds] by (auto simp: filter_id_conv)


section \<open>Durations\<close>

text \<open>
  Claim C4. For every duration string made of the marker \<^verbatim>\<open>PT\<close> and any ordered subset
  of an hour, a minute and a second component (each a non-empty run of digits followed by
  its letter), \<open>convert_iso8601_duration_to_seconds\<close> returns hours * 3600 + minutes * 60
  + seconds, an absent component counting as zero. The four strings of the specification
  give 3723, 45, 600 and 0.
\<close>

theorem convert_iso8601_duration_to_seconds_sum:
  "(iso_part_ok h \<and> iso_part_ok m \<and> iso_part_ok s \<longrightarrow>
      convert_iso8601_duration_to_seconds
        (''PT'' @ iso_component h CHR ''H'' @ iso_component m CHR ''M'' @ iso_component s CHR ''S'')
      = Inr (iso_value h * 3600 + iso_value m * 60 + iso_value s))
   \<and> convert_iso8601_duration_to_seconds ''PT1H2M3S'' = Inr 3723
   \<and> convert_iso8601_duration_to_seconds ''PT45S'' = Inr 45
   \<and> convert_iso8601_duration_to_seconds ''PT10M'' = Inr 600
   \<and> convert_iso8601_duration_to_seconds ''PT0S'' = Inr 0"
proof (intro conjI impI)
  assume ok: "iso_part_ok h \<and> iso_part_ok m \<and> iso_part_ok s"
  have H: "split_pair CHR ''H'' (ds @ CHR ''H'' # rest) = Inr (ds, rest)"
    if "digit_string ds" "CHR ''H'' \<notin> set rest" for ds rest
    using that digit_string_letters by (simp add: split_pair_once)
  have M: "split_pair CHR ''M'' (ds @ CHR ''M'' # rest) = Inr (ds, rest)"
    if "digit_string ds" "CHR ''M'' \<notin> set rest" for ds rest
    using that digit_string_letters by (simp add: split_pair_once)
  show "convert_iso8601_duration_to_seconds
        (''PT'' @ iso_component h CHR ''H'' @ iso_component m CHR ''M'' @ iso_component s CHR ''S'')
      = Inr (iso_value h * 3600 + iso_value m * 60 + iso_value s)"
    using ok
    by (cases h; cases m; cases s)
       (simp_all add: convert_iso8601_duration_to_seconds_def startswith_def iso_component_def
          iso_value_def iso_part_ok_def H M py_int_digit_string filter_digit_string
          digit_string_letters)
qed (code_simp+)

theorem convert_iso8601_duration_to_seconds_sum_witness:
  "iso_part_ok (Some ''01'') \<and> iso_part_ok None \<and> iso_part_ok (Some ''30'')
   \<and> convert_iso8601_duration_to_seconds ''PT01H30S'' = Inr 3630"
proof -
  have ok: "iso_part_ok (Some ''01'') \<and> iso_part_ok None \<and> iso_part_ok (Some ''30'')"
    by (simp add: iso_part_ok_def digit_string_def is_digit_def)
  have v: "iso_value (Some ''01'') = 1" "iso_value None = 0" "iso_value (Some ''30'') = 30"
    by (simp_all add: iso_value_def digits_val_def digit_val_def)
  from convert_iso8601_duration_to_seconds_sum [of "Some ''01''" None "Some ''30''"] ok
  have "convert_iso8601_duration_to_seconds
          (''PT'' @ iso_component (Some ''01'') CHR ''H'' @ iso_component None CHR ''M''
             @ iso_component (Some ''30'') CHR ''S'')
        = Inr (iso_value (Some ''01'') * 3600 + iso_value None * 60 + iso_value (Some ''30''))"
    by blast
  then have "convert_iso8601_duration_to_seconds ''PT01H30S'' = Inr 3630"
    by (simp add: iso_component_def v)
  with ok show ?thesis by simp
qed

section \<open>Ballot timestamps\<close>

lemma is_digit_not_sep:
  "is_digit c \<Longrightarrow> c \<noteq> CHR ''/'' \<and> c \<noteq> CHR '':'' \<and> c \<noteq> CHR '' '' \<and> c \<noteq> CHR ''+'' \<and> c \<noteq> CHR ''-''"
  by (auto simp: is_digit_def)

lemma span_digits_run:
  assumes "digit_string ds" "r = [] \<or> \<not> is_digit (hd r)"
  shows "span_digits (ds @ r) = Some (ds, r)"
proof -
  from assms(1) have all: "\<forall>c\<in>set ds. is_digit c" and ne: "ds \<noteq> []"
    by (auto simp: digit_string_def list_all_iff)
  from assms(2) have tw: "takeWhile is_digit r = []" and dw: "dropWhile is_digit r = r"
    by (cases r; auto)+
  from all have "takeWhile is_digit (ds @ r) = ds @ takeWhile is_digit r"
    by (simp add: takeWhile_append2)
  moreover from all have "dropWhile is_digit (ds @ r) = dropWhile is_digit r"
    by (simp add: dropWhile_append2)
  ultimately show ?thesis using ne tw dw by (simp add: span_digits_def)
qed

lemma span_digits_sound:
  "span_digits s = Some (ds, r) \<Longrightarrow> s = ds @ r \<and> digit_string ds"
  by (auto simp: span_digits_def Let_def digit_string_def list_all_iff split: if_splits dest: set_takeWhileD)

lemma expect_char_sound: "expect_char c s = Some r \<Longrightarrow> s = c # r"
  by (cases s) (auto split: if_splits)

lemma scan_timestamp_text:
  assumes "timestamp_shape comps" "rest = [] \<or> \<not> is_digit (hd rest)"
  shows "scan_timestamp (votes_timestamp_text comps @ rest) = Some (comps, rest)"
proof -
  obtain mo d y hh mm ss where c: "comps = (mo, d, y, hh, mm, ss)" by (cases comps) auto
  from assms(1) c have ds: "digit_string mo" "digit_string d" "digit_string y"
      "digit_string hh" "digit_string mm" "digit_string ss"
    by (auto simp: timestamp_shape_def)
  have sep: "\<not> is_digit CHR ''/''" "\<not> is_digit CHR '':''" "\<not> is_digit CHR '' ''"
    by (auto simp: is_digit_def)
  have s1: "\<And>ds c r. digit_string ds \<Longrightarrow> \<not> is_digit c \<Longrightarrow> span_digits (ds @ c # r) = Some (ds, c # r)"
    by (rule span_digits_run) auto
  show ?thesis
    using ds sep assms(2)
    by (simp add: c votes_timestamp_text_def scan_timestamp_def s1 span_digits_run)
qed

lemma scan_timestamp_sound:
  "scan_timestamp t = Some (comps, rest) \<Longrightarrow> t = votes_timestamp_text comps @ rest \<and> timestamp_shape comps"
  unfolding scan_timestamp_def votes_timestamp_text_def timestamp_shape_def
  by (auto split: Option.bind_splits dest!: span_digits_sound expect_char_sound)

lemma strip_last: "strip s \<noteq> [] \<Longrightarrow> \<not> is_space (last (strip s))"
proof -
  assume ne: "strip s \<noteq> []"
  let ?r = "dropWhile is_space (rev (dropWhile is_space s))"
  from ne have "?r \<noteq> []" by (simp add: strip_def)
  then have "\<not> is_space (hd ?r)" by (rule hd_dropWhile)
  moreover have "last (strip s) = hd ?r" using \<open>?r \<noteq> []\<close> by (simp add: strip_def last_rev)
  ultimately show ?thesis by simp
qed

lemma text_nonempty_ends:
  assumes "timestamp_shape comps"
  shows "votes_timestamp_text comps \<noteq> [] \<and> is_digit (hd (votes_timestamp_text comps))
         \<and> is_digit (last (votes_timestamp_text comps))"
proof -
  obtain mo d y hh mm ss where c: "comps = (mo, d, y, hh, mm, ss)" by (cases comps) auto
  from assms c have "digit_string mo" "digit_string ss" by (auto simp: timestamp_shape_def)
  then have "mo \<noteq> []" "is_digit (hd mo)" "ss \<noteq> []" "is_digit (last ss)"
    by (auto simp: digit_string_def list_all_iff)
  then show ?thesis by (simp add: c votes_timestamp_text_def)
qed

lemma strip_text: "timestamp_shape comps \<Longrightarrow> strip (votes_timestamp_text comps) = votes_timestamp_text comps"
  using text_nonempty_ends[of comps] by (intro strip_no_space) (auto dest: is_digit_not_space)

lemma re_match_text: "timestamp_shape comps \<Longrightarrow> re_match_timestamp (votes_timestamp_text comps) = Some comps"
  using scan_timestamp_text[of comps "[]"] by (simp add: re_match_timestamp_def)

lemma re_match_strip_sound:
  assumes "re_match_timestamp (strip s) = Some comps"
  shows "timestamp_shape comps \<and> strip s = votes_timestamp_text comps"
proof -
  from assms obtain rest where sc: "scan_timestamp (strip s) = Some (comps, rest)"
      and r: "rest = [] \<or> rest = [CHR 0x0A]"
    by (auto simp: re_match_timestamp_def split: option.splits if_splits)
  from scan_timestamp_sound[OF sc] have eq: "strip s = votes_timestamp_text comps @ rest"
      and sh: "timestamp_shape comps" by auto
  have "rest = []"
  proof (rule ccontr)
    assume "rest \<noteq> []"
    with r have rr: "rest = [CHR 0x0A]" by simp
    with eq have "strip s \<noteq> []" "last (strip s) = CHR 0x0A" by auto
    with strip_last[of s] show False by (simp add: is_space_def)
  qed
  with eq sh show ?thesis by simp
qed

lemma zfill_digit_string:
  assumes "digit_string ds"
  shows "digit_string (zfill w ds)"
proof -
  have z: "is_digit CHR ''0''" by (simp add: is_digit_def)
  from assms obtain c cs where ds: "ds = c # cs" and c: "is_digit c" and cs: "list_all is_digit cs"
    by (cases ds) (auto simp: digit_string_def)
  from c have nosign: "c \<noteq> CHR ''+''" "c \<noteq> CHR ''-''" using is_digit_not_sep by blast+
  have "list_all is_digit (replicate n CHR ''0'')" for n
    using z by (simp add: list_all_iff)
  then show ?thesis
    using nosign c cs by (simp add: ds zfill_def digit_string_def)
qed

lemma zfill_idem: "zfill w (zfill w s) = zfill w s"
  by (cases s) (auto simp: zfill_def)

lemma zero_padded_shape: "timestamp_shape comps \<Longrightarrow> timestamp_shape (zero_padded comps)"
  by (cases comps) (auto simp: timestamp_shape_def zero_padded_def zfill_digit_string)

lemma zero_padded_idem: "zero_padded (zero_padded comps) = zero_padded comps"
  by (cases comps) (simp add: zero_padded_def zfill_idem)

lemma parse_shape:
  "timestamp_shape comps \<Longrightarrow> strip s = votes_timestamp_text comps \<Longrightarrow>
   parse_votes_csv_timestamp s =
     bind_result (strptime_mdY_HMS (votes_timestamp_text (zero_padded comps)))
       (\<lambda>dt. Inr (dt\<lparr>dt_tzinfo := None\<rparr>))"
  by (simp add: parse_votes_csv_timestamp_def re_match_text)


lemma zfill_pad_zeros: "digit_string ds \<Longrightarrow> zfill w ds = pad_zeros w ds"
proof -
  assume a: "digit_string ds"
  then obtain c cs where ds: "ds = c # cs" and c: "is_digit c"
    by (cases ds) (auto simp: digit_string_def)
  from c have "c \<noteq> CHR ''+''" "c \<noteq> CHR ''-''" using is_digit_not_sep by blast+
  then show ?thesis by (simp add: zfill_def pad_zeros_def ds)
qed

lemma foldl_digits_shift:
  "foldl (\<lambda>acc c. acc * 10 + digit_val c) a ys
     = a * 10 ^ length ys + foldl (\<lambda>acc c. acc * 10 + digit_val c) 0 ys"
proof (induction ys rule: rev_induct)
  case Nil
  show ?case by simp
next
  case (snoc c ys)
  let ?f = "\<lambda>acc c. acc * 10 + digit_val c"
  have "foldl ?f a (ys @ [c]) = foldl ?f a ys * 10 + digit_val c" by simp
  also have "\<dots> = (a * 10 ^ length ys + foldl ?f 0 ys) * 10 + digit_val c"
    by (simp only: snoc.IH)
  also have "\<dots> = a * 10 ^ length (ys @ [c]) + (foldl ?f 0 ys * 10 + digit_val c)"
    by (simp add: add_mult_distrib)
  also have "foldl ?f 0 ys * 10 + digit_val c = foldl ?f 0 (ys @ [c])" by simp
  finally show ?case .
qed

lemma digits_val_append: "digits_val (xs @ ys) = digits_val xs * 10 ^ length ys + digits_val ys"
  unfolding digits_val_def foldl_append by (rule foldl_digits_shift)

lemma digits_val_zeros: "digits_val (replicate k CHR ''0'') = 0"
proof (induction k)
  case 0
  show ?case by (simp add: digits_val_def)
next
  case (Suc k)
  have z: "digits_val [CHR ''0''] = 0" by (simp add: digits_val_def digit_val_def)
  have "digits_val (replicate (Suc k) CHR ''0'') = digits_val ([CHR ''0''] @ replicate k CHR ''0'')"
    by simp
  also have "\<dots> = 0" unfolding digits_val_append by (simp add: z Suc)
  finally show ?case .
qed

lemma digits_val_pad_zeros: "digits_val (pad_zeros w ds) = digits_val ds"
  by (simp add: pad_zeros_def digits_val_append digits_val_zeros)

lemma digit_val_le: "is_digit c \<Longrightarrow> digit_val c \<le> 9"
  by (auto simp: is_digit_def digit_val_def)

lemma digits_val_bound: "list_all is_digit ds \<Longrightarrow> digits_val ds < 10 ^ length ds"
proof (induction ds rule: rev_induct)
  case Nil
  show ?case by (simp add: digits_val_def)
next
  case (snoc c ds)
  then have b: "digits_val ds < 10 ^ length ds" and c: "digit_val c \<le> 9"
    by (simp_all add: digit_val_le)
  from b have "digits_val ds + 1 \<le> 10 ^ length ds" by simp
  then have "(digits_val ds + 1) * 10 \<le> 10 ^ length ds * 10" by (rule mult_le_mono1)
  with c show ?case by (simp add: digits_val_append digits_val_def)
qed

lemma length_pad_zeros_le: "(length (pad_zeros w ds) \<le> w) = (length ds \<le> w)"
  by (auto simp: pad_zeros_def)

lemma length_pad_zeros_eq: "(length (pad_zeros w ds) = w) = (length ds \<le> w)"
  by (auto simp: pad_zeros_def)

lemma zero_padded_pad:
  "timestamp_shape (mo, d, y, hh, mm, ss) \<Longrightarrow>
   zero_padded (mo, d, y, hh, mm, ss)
     = (pad_zeros 2 mo, pad_zeros 2 d, pad_zeros 4 y, pad_zeros 2 hh, pad_zeros 2 mm, pad_zeros 2 ss)"
  by (simp add: timestamp_shape_def zero_padded_def zfill_pad_zeros)

lemma new_datetime_valid:
  "1 \<le> y \<Longrightarrow> y \<le> 9999 \<Longrightarrow> 1 \<le> m \<Longrightarrow> m \<le> 12 \<Longrightarrow> 1 \<le> d \<Longrightarrow> d \<le> days_in_month y m \<Longrightarrow>
   0 \<le> hh \<Longrightarrow> hh \<le> 23 \<Longrightarrow> 0 \<le> mm \<Longrightarrow> mm \<le> 59 \<Longrightarrow> 0 \<le> ss \<Longrightarrow> ss \<le> 59 \<Longrightarrow>
   new_datetime y m d hh mm ss tz
     = Inr \<lparr>dt_year = y, dt_month = m, dt_day = d, dt_hour = hh, dt_minute = mm,
            dt_second = ss, dt_tzinfo = tz\<rparr>"
  by (simp add: new_datetime_def not_less)

lemma new_datetime_Inr:
  "new_datetime y m d hh mm ss tz = Inr dt \<Longrightarrow>
     1 \<le> y \<and> y \<le> 9999 \<and> 1 \<le> m \<and> m \<le> 12 \<and> 1 \<le> d \<and> d \<le> days_in_month y m
      \<and> 0 \<le> hh \<and> hh \<le> 23 \<and> 0 \<le> mm \<and> mm \<le> 59 \<and> 0 \<le> ss \<and> ss \<le> 59"
  by (simp add: new_datetime_def not_less split: if_splits)

lemma new_datetime_Inl: "new_datetime y m d hh mm ss tz = Inl x \<Longrightarrow> \<exists>e. x = ValueError e"
  by (simp add: new_datetime_def split: if_splits) blast+

lemma days_in_month_le: "days_in_month y m \<le> 31"
  by (simp add: days_in_month_def)

lemma strptime_padded:
  assumes sh: "timestamp_shape (mo, d, y, hh, mm, ss)"
  shows "(timestamp_valid (mo, d, y, hh, mm, ss) \<longrightarrow>
            strptime_mdY_HMS (votes_timestamp_text (zero_padded (mo, d, y, hh, mm, ss)))
              = Inr (timestamp_value (mo, d, y, hh, mm, ss)))
       \<and> (\<not> timestamp_valid (mo, d, y, hh, mm, ss) \<longrightarrow>
            (\<exists>e. strptime_mdY_HMS (votes_timestamp_text (zero_padded (mo, d, y, hh, mm, ss)))
                    = Inl (ValueError e)))"
proof -
  let ?zp = "zero_padded (mo, d, y, hh, mm, ss)"
  have zp: "?zp = (pad_zeros 2 mo, pad_zeros 2 d, pad_zeros 4 y, pad_zeros 2 hh, pad_zeros 2 mm,
                   pad_zeros 2 ss)"
    by (rule zero_padded_pad[OF sh])
  from sh have ne: "mo \<noteq> []" "d \<noteq> []" "y \<noteq> []" "hh \<noteq> []" "mm \<noteq> []" "ss \<noteq> []"
    and dy: "list_all is_digit y"
    by (auto simp: timestamp_shape_def digit_string_def)
  from scan_timestamp_text[OF zero_padded_shape[OF sh], of "[]"]
  have sc: "scan_timestamp (votes_timestamp_text ?zp) = Some (?zp, [])" by simp
  let ?Y = "int (digits_val y)" and ?M = "int (digits_val mo)" and ?D = "int (digits_val d)"
  let ?h = "int (digits_val hh)" and ?m = "int (digits_val mm)" and ?s = "int (digits_val ss)"
  define c1 where "c1 \<longleftrightarrow> length mo \<le> 2 \<and> 1 \<le> digits_val mo \<and> digits_val mo \<le> 12
         \<and> length d \<le> 2 \<and> 1 \<le> digits_val d \<and> digits_val d \<le> 31
         \<and> length y \<le> 4
         \<and> length hh \<le> 2 \<and> digits_val hh \<le> 23
         \<and> length mm \<le> 2 \<and> digits_val mm \<le> 59"
  define c2 where "c2 \<longleftrightarrow> length ss \<le> 2 \<and> digits_val ss \<le> 61"
  have st: "strptime_mdY_HMS (votes_timestamp_text ?zp) =
     (if c1
      then (if c2 then new_datetime ?Y ?M ?D ?h ?m ?s None
            else Inl (ValueError ''unconverted data remains''))
      else Inl (ValueError ''time data does not match format''))"
    unfolding strptime_mdY_HMS_def sc c1_def c2_def
    by (simp add: zp digits_val_pad_zeros length_pad_zeros_le length_pad_zeros_eq)
  show ?thesis
  proof (intro conjI impI)
    assume v: "timestamp_valid (mo, d, y, hh, mm, ss)"
    then have ly: "length y \<le> 4" by (simp add: timestamp_valid_def)
    from digits_val_bound[OF dy] have "digits_val y < 10 ^ length y" .
    also from ly have "(10::nat) ^ length y \<le> 10 ^ 4" by (intro power_increasing) simp_all
    finally have y9: "?Y \<le> 9999" by simp
    from v days_in_month_le[of ?Y ?M] have d31: "digits_val d \<le> 31"
      by (simp add: timestamp_valid_def)
    from v y9 have "new_datetime ?Y ?M ?D ?h ?m ?s None
        = Inr \<lparr>dt_year = ?Y, dt_month = ?M, dt_day = ?D, dt_hour = ?h, dt_minute = ?m,
               dt_second = ?s, dt_tzinfo = None\<rparr>"
      by (intro new_datetime_valid) (simp_all add: timestamp_valid_def)
    then have nd: "new_datetime ?Y ?M ?D ?h ?m ?s None = Inr (timestamp_value (mo, d, y, hh, mm, ss))"
      by (simp add: timestamp_value_def)
    from v d31 have "c1" "c2" by (simp_all add: c1_def c2_def timestamp_valid_def)
    with nd show "strptime_mdY_HMS (votes_timestamp_text ?zp)
        = Inr (timestamp_value (mo, d, y, hh, mm, ss))"
      by (simp add: st)
  next
    assume nv: "\<not> timestamp_valid (mo, d, y, hh, mm, ss)"
    show "\<exists>e. strptime_mdY_HMS (votes_timestamp_text ?zp) = Inl (ValueError e)"
    proof (cases "c1 \<and> c2")
      case False
      then show ?thesis by (auto simp: st)
    next
      case True
      then have s2: "strptime_mdY_HMS (votes_timestamp_text ?zp) = new_datetime ?Y ?M ?D ?h ?m ?s None"
        by (simp add: st)
      show ?thesis
      proof (cases "new_datetime ?Y ?M ?D ?h ?m ?s None")
        case (Inl x)
        from new_datetime_Inl[OF Inl] Inl s2 show ?thesis by auto
      next
        case (Inr dt)
        from new_datetime_Inr[OF Inr]
        have r: "1 \<le> ?Y \<and> 1 \<le> ?M \<and> ?M \<le> 12 \<and> 1 \<le> ?D \<and> ?D \<le> days_in_month ?Y ?M
            \<and> ?h \<le> 23 \<and> ?m \<le> 59 \<and> ?s \<le> 59"
          by simp
        from True have "length mo \<le> 2 \<and> length d \<le> 2 \<and> length y \<le> 4
            \<and> length hh \<le> 2 \<and> length mm \<le> 2 \<and> length ss \<le> 2"
          by (simp add: c1_def c2_def)
        with r have "timestamp_valid (mo, d, y, hh, mm, ss)"
          by (simp add: timestamp_valid_def)
        with nv show ?thesis by simp
      qed
    qed
  qed
qed

text \<open>
  Claim C5. A timestamp that, once surrounding whitespace is stripped, has the shape
  digits/digits/digits digits:digits:digits parses to the same result as the text of its
  fields padded with zeros to two digits (four for the year). That result is the
  datetime the six numbers denote when each field has at most two digits (four for
  the year) and the numbers make a date and a time, and a ValueError otherwise. Any input
  of another shape fails with the message "Cannot parse votes CSV timestamp ...;
  invalid format"; a result never has a time zone; and the two strings of the
  specification parse to the same instant, 2024-04-01 09:05:03.
\<close>

theorem parse_votes_csv_timestamp_zero_padded:
  "(timestamp_shape (mo, d, y, hh, mm, ss)
      \<and> strip s = mo @ ''/'' @ d @ ''/'' @ y @ '' '' @ hh @ '':'' @ mm @ '':'' @ ss \<longrightarrow>
        parse_votes_csv_timestamp s
          = parse_votes_csv_timestamp
              (pad_zeros 2 mo @ ''/'' @ pad_zeros 2 d @ ''/'' @ pad_zeros 4 y @ '' ''
               @ pad_zeros 2 hh @ '':'' @ pad_zeros 2 mm @ '':'' @ pad_zeros 2 ss)
        \<and> (timestamp_valid (mo, d, y, hh, mm, ss) \<longrightarrow>
              parse_votes_csv_timestamp s = Inr (timestamp_value (mo, d, y, hh, mm, ss)))
        \<and> (\<not> timestamp_valid (mo, d, y, hh, mm, ss) \<longrightarrow>
              (\<exists>e. parse_votes_csv_timestamp s = Inl (ValueError e))))
   \<and> ((\<nexists>cs. timestamp_shape cs \<and> strip s = votes_timestamp_text cs) \<longrightarrow>
        parse_votes_csv_timestamp s
          = Inl (ValueError (''Cannot parse votes CSV timestamp '' @ [CHR 0x22] @ strip s
                             @ [CHR 0x22] @ ''; invalid format'')))
   \<and> (\<forall>dt. parse_votes_csv_timestamp s = Inr dt \<longrightarrow> dt_tzinfo dt = None)
   \<and> parse_votes_csv_timestamp ''4/1/2024 9:5:3'' = parse_votes_csv_timestamp ''04/01/2024 09:05:03''
   \<and> parse_votes_csv_timestamp ''4/1/2024 9:5:3''
       = Inr \<lparr>dt_year = 2024, dt_month = 4, dt_day = 1, dt_hour = 9, dt_minute = 5,
              dt_second = 3, dt_tzinfo = None\<rparr>"
proof (intro conjI impI allI)
  let ?c = "(mo, d, y, hh, mm, ss)"
  assume a: "timestamp_shape ?c
      \<and> strip s = mo @ ''/'' @ d @ ''/'' @ y @ '' '' @ hh @ '':'' @ mm @ '':'' @ ss"
  then have sh: "timestamp_shape ?c" and st: "strip s = votes_timestamp_text ?c"
    by (simp_all add: votes_timestamp_text_def)
  have zs: "timestamp_shape (zero_padded ?c)" using sh by (rule zero_padded_shape)
  have ptext: "pad_zeros 2 mo @ ''/'' @ pad_zeros 2 d @ ''/'' @ pad_zeros 4 y @ '' ''
               @ pad_zeros 2 hh @ '':'' @ pad_zeros 2 mm @ '':'' @ pad_zeros 2 ss
               = votes_timestamp_text (zero_padded ?c)"
    unfolding zero_padded_pad[OF sh] by (simp add: votes_timestamp_text_def)
  note p = parse_shape[OF sh st]
  have "parse_votes_csv_timestamp (votes_timestamp_text (zero_padded ?c)) =
     bind_result (strptime_mdY_HMS (votes_timestamp_text (zero_padded (zero_padded ?c))))
       (\<lambda>dt. Inr (dt\<lparr>dt_tzinfo := None\<rparr>))"
    by (rule parse_shape[OF zs]) (simp add: strip_text zs)
  then show "parse_votes_csv_timestamp s
          = parse_votes_csv_timestamp
              (pad_zeros 2 mo @ ''/'' @ pad_zeros 2 d @ ''/'' @ pad_zeros 4 y @ '' ''
               @ pad_zeros 2 hh @ '':'' @ pad_zeros 2 mm @ '':'' @ pad_zeros 2 ss)"
    unfolding ptext by (simp add: p zero_padded_idem)
  note sp = strptime_padded[OF sh]
  {
    assume v: "timestamp_valid ?c"
    with sp have "strptime_mdY_HMS (votes_timestamp_text (zero_padded ?c))
        = Inr (timestamp_value ?c)" by blast
    then show "parse_votes_csv_timestamp s = Inr (timestamp_value ?c)"
      by (simp add: p timestamp_value_def)
  }
  {
    assume nv: "\<not> timestamp_valid ?c"
    with sp obtain e where "strptime_mdY_HMS (votes_timestamp_text (zero_padded ?c))
        = Inl (ValueError e)" by blast
    then have "parse_votes_csv_timestamp s = Inl (ValueError e)" by (simp add: p)
    then show "\<exists>e. parse_votes_csv_timestamp s = Inl (ValueError e)" by blast
  }
next
  assume n: "\<nexists>cs. timestamp_shape cs \<and> strip s = votes_timestamp_text cs"
  have "re_match_timestamp (strip s) = None"
  proof (cases "re_match_timestamp (strip s)")
    case (Some cs)
    from re_match_strip_sound[OF Some] n show ?thesis by blast
  qed simp
  then show "parse_votes_csv_timestamp s
          = Inl (ValueError (''Cannot parse votes CSV timestamp '' @ [CHR 0x22] @ strip s
                             @ [CHR 0x22] @ ''; invalid format''))"
    by (simp add: parse_votes_csv_timestamp_def)
next
  fix dt assume "parse_votes_csv_timestamp s = Inr dt"
  then show "dt_tzinfo dt = None"
    by (cases "strptime_mdY_HMS (votes_timestamp_text (zero_padded (the (re_match_timestamp (strip s)))))")
       (auto simp: parse_votes_csv_timestamp_def Let_def split: option.splits)
next
  show "parse_votes_csv_timestamp ''4/1/2024 9:5:3'' = parse_votes_csv_timestamp ''04/01/2024 09:05:03''"
    by code_simp
next
  show "parse_votes_csv_timestamp ''4/1/2024 9:5:3''
       = Inr \<lparr>dt_year = 2024, dt_month = 4, dt_day = 1, dt_hour = 9, dt_minute = 5,
              dt_second = 3, dt_tzinfo = None\<rparr>"
    by code_simp
qed

theorem parse_votes_csv_timestamp_zero_padded_witness:
  "timestamp_shape (''4'', ''1'', ''2024'', ''9'', ''5'', ''3'')
   \<and> timestamp_valid (''4'', ''1'', ''2024'', ''9'', ''5'', ''3'')
   \<and> strip (CHR 0xA0 # ''4/1/2024 9:5:3 '') = ''4/1/2024 9:5:3''
   \<and> parse_votes_csv_timestamp (CHR 0xA0 # ''4/1/2024 9:5:3 '')
       = parse_votes_csv_timestamp ''04/01/2024 09:05:03''
   \<and> parse_votes_csv_timestamp (CHR 0xA0 # ''4/1/2024 9:5:3 '')
       = Inr \<lparr>dt_year = 2024, dt_month = 4, dt_day = 1, dt_hour = 9, dt_minute = 5,
              dt_second = 3, dt_tzinfo = None\<rparr>
   \<and> \<not> timestamp_valid (''2'', ''30'', ''2024'', ''9'', ''5'', ''3'')
   \<and> (\<exists>e. parse_votes_csv_timestamp ''2/30/2024 9:5:3'' = Inl (ValueError e))
   \<and> parse_votes_csv_timestamp ''4/1/2024 9:5''
       = Inl (ValueError (''Cannot parse votes CSV timestamp '' @ [CHR 0x22] @ ''4/1/2024 9:5''
                          @ [CHR 0x22] @ ''; invalid format''))"
proof -
  let ?c = "(''4'', ''1'', ''2024'', ''9'', ''5'', ''3'')"
  let ?b = "(''2'', ''30'', ''2024'', ''9'', ''5'', ''3'')"
  let ?s = "CHR 0xA0 # ''4/1/2024 9:5:3 ''"
  have dv: "digits_val ''4'' = 4" "digits_val ''1'' = 1" "digits_val ''2024'' = 2024"
    "digits_val ''9'' = 9" "digits_val ''5'' = 5" "digits_val ''3'' = 3"
    "digits_val ''2'' = 2" "digits_val ''30'' = 30"
    by (simp_all add: digits_val_def digit_val_def)
  have sh: "timestamp_shape ?c" and shb: "timestamp_shape ?b"
    by (simp_all add: timestamp_shape_def digit_string_def is_digit_def)
  have va: "timestamp_valid ?c"
    by (simp add: timestamp_valid_def dv days_in_month_def)
  have nvb: "\<not> timestamp_valid ?b"
    by (simp add: timestamp_valid_def dv days_in_month_def is_leap_def)
  have st: "strip ?s = ''4/1/2024 9:5:3''"
    by (simp add: strip_def is_space_def)
  have stb: "strip ''2/30/2024 9:5:3'' = ''2/30/2024 9:5:3''"
    by (simp add: strip_def is_space_def)
  have pz: "pad_zeros 2 ''4'' = ''04''" "pad_zeros 2 ''1'' = ''01''" "pad_zeros 4 ''2024'' = ''2024''"
    "pad_zeros 2 ''9'' = ''09''" "pad_zeros 2 ''5'' = ''05''" "pad_zeros 2 ''3'' = ''03''"
    by (simp_all add: pad_zeros_def)
  have tv: "timestamp_value ?c = \<lparr>dt_year = 2024, dt_month = 4, dt_day = 1, dt_hour = 9,
      dt_minute = 5, dt_second = 3, dt_tzinfo = None\<rparr>"
    by (simp add: timestamp_value_def dv)
  have st2: "strip ''4/1/2024 9:5'' = ''4/1/2024 9:5''"
    by (simp add: strip_def is_space_def)
  have none: "re_match_timestamp ''4/1/2024 9:5'' = None"
    by code_simp
  have noshape: "\<nexists>cs. timestamp_shape cs \<and> strip ''4/1/2024 9:5'' = votes_timestamp_text cs"
  proof
    assume "\<exists>cs. timestamp_shape cs \<and> strip ''4/1/2024 9:5'' = votes_timestamp_text cs"
    then obtain cs where "timestamp_shape cs" "''4/1/2024 9:5'' = votes_timestamp_text cs"
      using st2 by auto
    then have "re_match_timestamp ''4/1/2024 9:5'' = Some cs"
      using re_match_text[of cs] by simp
    with none show False by simp
  qed
  note base = parse_votes_csv_timestamp_zero_padded
  have pre: "timestamp_shape ?c
      \<and> strip ?s = ''4'' @ ''/'' @ ''1'' @ ''/'' @ ''2024'' @ '' '' @ ''9'' @ '':'' @ ''5'' @ '':'' @ ''3''"
    using sh st by simp
  note i1 = base [of "''4''" "''1''" "''2024''" "''9''" "''5''" "''3''" ?s,
      THEN conjunct1, THEN mp, OF pre]
  from i1[THEN conjunct1]
  have a: "parse_votes_csv_timestamp ?s = parse_votes_csv_timestamp ''04/01/2024 09:05:03''"
    by (simp add: pz)
  from i1[THEN conjunct2, THEN conjunct1, THEN mp, OF va]
  have b: "parse_votes_csv_timestamp ?s = Inr \<lparr>dt_year = 2024, dt_month = 4, dt_day = 1,
       dt_hour = 9, dt_minute = 5, dt_second = 3, dt_tzinfo = None\<rparr>"
    by (simp add: tv)
  have preb: "timestamp_shape ?b
      \<and> strip ''2/30/2024 9:5:3''
          = ''2'' @ ''/'' @ ''30'' @ ''/'' @ ''2024'' @ '' '' @ ''9'' @ '':'' @ ''5'' @ '':'' @ ''3''"
    using shb stb by simp
  note i2 = base [of "''2''" "''30''" "''2024''" "''9''" "''5''" "''3''" "''2/30/2024 9:5:3''",
      THEN conjunct1, THEN mp, OF preb]
  from i2[THEN conjunct2, THEN conjunct2, THEN mp, OF nvb]
  have c: "\<exists>e. parse_votes_csv_timestamp ''2/30/2024 9:5:3'' = Inl (ValueError e)" .
  from base [of "[]" "[]" "[]" "[]" "[]" "[]" "''4/1/2024 9:5''",
      THEN conjunct2, THEN conjunct1, THEN mp, OF noshape]
  have d: "parse_votes_csv_timestamp ''4/1/2024 9:5''
       = Inl (ValueError (''Cannot parse votes CSV timestamp '' @ [CHR 0x22] @ ''4/1/2024 9:5''
                          @ [CHR 0x22] @ ''; invalid format''))"
    by (simp add: st2)
  show ?thesis
    by (rule conjI[OF sh conjI[OF va conjI[OF st conjI[OF a conjI[OF b conjI[OF nvb conjI[OF c d]]]]]]])
qed

section \<open>Month bounds\<close>

lemma days_in_month_ge: "28 \<le> days_in_month y m"
  by (simp add: days_in_month_def)

text \<open>
  Claim C6, as the code has it. For month 1 to 12 and year 1 to 9999, December 9999
  excepted, strict mode returns the first instant of the month and the first instant of
  the following month (January of the next year after December), without time zone;
  lenient mode returns the same calendar instants, the lower one in UTC+14 and the upper
  one in UTC-12.
\<close>

theorem get_month_year_bounds_interval:
  assumes "1 \<le> month" "month \<le> 12" "1 \<le> year" "year \<le> 9999"
      and "\<not> (month = 12 \<and> year = 9999)"
  shows "get_month_year_bounds month year False
           = Inr (first_instant year month None,
                  first_instant (snd (following_month month year)) (fst (following_month month year)) None)
         \<and> get_month_year_bounds month year True
           = Inr (first_instant year month (Some (StaticTz ''Etc/GMT-14'' 840)),
                  first_instant (snd (following_month month year)) (fst (following_month month year))
                    (Some (StaticTz ''Etc/GMT+12'' (- 720))))"
  using assms days_in_month_ge[of year month] days_in_month_ge[of year "month + 1"]
    days_in_month_ge[of "year + 1" 1]
  by (auto simp: get_month_year_bounds_def new_datetime_def replace_year_month_tz_def timezone_def
        first_instant_def following_month_def)

theorem get_month_year_bounds_interval_witness:
  "get_month_year_bounds 3 2024 False
     = Inr (\<lparr>dt_year = 2024, dt_month = 3, dt_day = 1, dt_hour = 0, dt_minute = 0,
              dt_second = 0, dt_tzinfo = None\<rparr>,
            \<lparr>dt_year = 2024, dt_month = 4, dt_day = 1, dt_hour = 0, dt_minute = 0,
              dt_second = 0, dt_tzinfo = None\<rparr>)
   \<and> get_month_year_bounds 3 2024 True
     = Inr (\<lparr>dt_year = 2024, dt_month = 3, dt_day = 1, dt_hour = 0, dt_minute = 0,
              dt_second = 0, dt_tzinfo = Some (StaticTz ''Etc/GMT-14'' 840)\<rparr>,
            \<lparr>dt_year = 2024, dt_month = 4, dt_day = 1, dt_hour = 0, dt_minute = 0,
              dt_second = 0, dt_tzinfo = Some (StaticTz ''Etc/GMT+12'' (- 720))\<rparr>)"
  using get_month_year_bounds_interval [of 3 2024]
  by (simp add: first_instant_def following_month_def)

text \<open>
  December 9999 is a month the datetime type can hold, and for it the upper bound would
  be January 10000, which the type cannot: the function raises in both modes.
\<close>

theorem get_month_year_bounds_december_9999:
  "new_datetime 9999 12 1 0 0 0 None
     = Inr \<lparr>dt_year = 9999, dt_month = 12, dt_day = 1, dt_hour = 0, dt_minute = 0,
            dt_second = 0, dt_tzinfo = None\<rparr>
   \<and> get_month_year_bounds 12 9999 False = Inl (ValueError ''year is out of range'')
   \<and> get_month_year_bounds 12 9999 True = Inl (ValueError ''year is out of range'')"
  by (simp add: get_month_year_bounds_def new_datetime_def replace_year_month_tz_def timezone_def
        days_in_month_def)

section \<open>Properties of dictionaries and of the tally\<close>

lemma map_of_dict_set: "map_of (dict_set k v d) = (map_of d)(k \<mapsto> v)"
  by (induction d) (auto simp: fun_eq_iff)

lemma keys_dict_set:
  "map fst (dict_set k v d) = (if k \<in> fst ` set d then map fst d else map fst d @ [k])"
  by (induction d) (auto simp: image_iff, force+)

lemma dict_set_absent: "k \<notin> fst ` set d \<Longrightarrow> dict_set k v d = d @ [(k, v)]"
  by (induction d) auto

lemma distinct_dict_set: "distinct (map fst d) \<Longrightarrow> distinct (map fst (dict_set k v d))"
  by (simp add: keys_dict_set)

lemma map_of_dict_del: "map_of (dict_del k d) = (map_of d)(k := None)"
  by (induction d) (auto simp: dict_del_def fun_eq_iff)

lemma dict_del_absent: "map_of d k = None \<Longrightarrow> dict_del k d = d"
  by (induction d) (auto simp: dict_del_def split: if_splits)

lemma dict_del_dict_set: "t \<noteq> k \<Longrightarrow> dict_del k (dict_set t v d) = dict_set t v (dict_del k d)"
  by (induction d) (auto simp: dict_del_def)

lemma dict_del_dict_set_same: "dict_del k (dict_set k v d) = dict_del k d"
  by (induction d) (auto simp: dict_del_def)

lemma count_title_eq:
  "count_title tc t = dict_set t (case map_of tc t of None \<Rightarrow> 1 | Some c \<Rightarrow> c + 1) tc"
proof (cases "map_of tc t")
  case None
  have "dict_set t (Suc 0) (dict_set t 0 tc) = dict_set t (Suc 0) tc"
    by (induction tc) auto
  with None show ?thesis by (simp add: count_title_def map_of_dict_set)
next
  case (Some c)
  then show ?thesis by (simp add: count_title_def)
qed

lemma dict_del_count_title:
  "dict_del k (count_title tc t) = (if t = k then dict_del k tc else count_title (dict_del k tc) t)"
  by (simp add: count_title_eq dict_del_dict_set dict_del_dict_set_same map_of_dict_del)

lemma dict_del_fold_count:
  "dict_del k (fold (\<lambda>title tc'. count_title tc' title) xs tc)
     = fold (\<lambda>title tc'. count_title tc' title) (filter (\<lambda>t. t \<noteq> k) xs) (dict_del k tc)"
  by (induction xs arbitrary: tc) (simp_all add: dict_del_count_title)

lemma fold_concat_rows: "fold (fold f) xss a = fold f (concat xss) a"
  by (induction xss arbitrary: a) simp_all

lemma tally_concat: "tally rows = fold (\<lambda>title tc'. count_title tc' title) (concat rows) []"
proof -
  have "(\<lambda>title_row tc. fold (\<lambda>title tc'. count_title tc' title) title_row tc)
          = fold (\<lambda>title tc'. count_title tc' title)"
    by (simp add: fun_eq_iff)
  then show ?thesis by (simp add: tally_def fold_concat_rows)
qed

lemma count_votes_eq:
  "count_votes rows = fold (\<lambda>title tc'. count_title tc' title) (filter (\<lambda>t. t \<noteq> []) (concat rows)) []"
proof -
  have "count_votes rows = dict_del [] (tally rows)"
    by (auto simp: count_votes_def Let_def dict_del_absent)
  also have "\<dots> = fold (\<lambda>title tc'. count_title tc' title)
                      (filter (\<lambda>t. t \<noteq> []) (concat rows)) (dict_del [] [])"
    unfolding tally_concat by (rule dict_del_fold_count)
  also have "dict_del [] [] = ([] :: (string, nat) dict)" by (simp add: dict_del_def)
  finally show ?thesis .
qed

lemma blank_row: "vote_count_of row = 0 \<Longrightarrow> filter (\<lambda>t. t \<noteq> []) row = []"
  by (simp add: vote_count_of_def)

lemma count_votes_drop_blank:
  "count_votes (filter (\<lambda>r. vote_count_of r \<noteq> 0) rows) = count_votes rows"
proof -
  have "filter (\<lambda>t. t \<noteq> []) (concat (filter (\<lambda>r. vote_count_of r \<noteq> 0) rows))
          = filter (\<lambda>t. t \<noteq> []) (concat rows)"
    by (induction rows) (auto simp: blank_row)
  then show ?thesis by (simp add: count_votes_eq)
qed

lemma count_voters_valid:
  "list_all valid_ballot rows \<Longrightarrow> count_voters i c rows = Inr (c + counted_ballots rows)"
  by (induction rows arbitrary: i c) (auto simp: valid_ballot_def counted_ballots_def Let_def)

lemma count_voters_invalid:
  assumes "list_all valid_ballot pre" "\<not> valid_ballot b"
  shows "count_voters i c (pre @ b # post) = Inl (ballot_error (vote_count_of b) (i + length pre))"
  using assms
  by (induction pre arbitrary: i c) (auto simp: valid_ballot_def Let_def)

lemma count_voters_Inr:
  "count_voters i c rows = Inr n \<Longrightarrow> list_all valid_ballot rows \<and> n = c + counted_ballots rows"
proof (induction rows arbitrary: i c)
  case Nil
  then show ?case by (simp add: counted_ballots_def)
next
  case (Cons r rows)
  show ?case
  proof (cases "5 \<le> vote_count_of r")
    case True
    with Cons.prems have "count_voters (i + 1) (c + 1) rows = Inr n" by simp
    from Cons.IH[OF this] True show ?thesis
      by (simp add: valid_ballot_def counted_ballots_def)
  next
    case False
    with Cons.prems have z: "vote_count_of r = 0"
      by (auto simp: Let_def split: if_splits)
    with Cons.prems have "count_voters (i + 1) c rows = Inr n" by simp
    from Cons.IH[OF this] z show ?thesis
      by (simp add: valid_ballot_def counted_ballots_def)
  qed
qed

lemma count_voters_drop_blank:
  "list_all valid_ballot rows \<Longrightarrow>
   count_voters 0 0 (filter (\<lambda>r. vote_count_of r \<noteq> 0) rows) = count_voters 0 0 rows"
proof -
  assume v: "list_all valid_ballot rows"
  then have v': "list_all valid_ballot (filter (\<lambda>r. vote_count_of r \<noteq> 0) rows)"
    by (simp add: list_all_iff)
  have "counted_ballots (filter (\<lambda>r. vote_count_of r \<noteq> 0) rows) = counted_ballots rows"
    unfolding counted_ballots_def filter_filter
    by (rule arg_cong[where f=length], rule filter_cong) auto
  with v v' show ?thesis by (simp add: count_voters_valid)
qed

lemma no_counted_all_blank:
  assumes "list_all valid_ballot rows" "counted_ballots rows = 0"
  shows "count_votes rows = []"
proof -
  from assms have "\<forall>r\<in>set rows. vote_count_of r = 0"
    by (auto simp: list_all_iff valid_ballot_def counted_ballots_def filter_empty_conv)
  then have "filter (\<lambda>t. t \<noteq> []) (concat rows) = []"
    by (induction rows) (auto simp: blank_row)
  then show ?thesis by (simp add: count_votes_eq)
qed

section \<open>Properties of the ranking\<close>

subsection \<open>grouping\<close>

lemma add_to_group_eq:
  "add_to_group (t, p) pg = dict_set p (group_of pg p @ [t]) pg"
proof (cases "map_of pg p")
  case None
  have "dict_set p [t] (dict_set p [] pg) = dict_set p [t] pg"
    by (induction pg) auto
  with None show ?thesis by (simp add: add_to_group_def group_of_def map_of_dict_set)
next
  case (Some g)
  then show ?thesis by (simp add: add_to_group_def group_of_def)
qed

lemma group_of_add:
  "group_of (add_to_group (t, q) pg) p = (if q = p then group_of pg p @ [t] else group_of pg p)"
  by (simp add: add_to_group_eq group_of_def map_of_dict_set)

lemma group_of_fold:
  "group_of (fold add_to_group tp pg) p = group_of pg p @ map fst (filter (\<lambda>x. snd x = p) tp)"
proof (induction tp arbitrary: pg)
  case Nil
  show ?case by simp
next
  case (Cons x tp)
  obtain t q where x: "x = (t, q)" by (cases x)
  show ?case by (simp add: Cons.IH x group_of_add)
qed

lemma keys_add_to_group:
  "fst ` set (add_to_group (t, q) pg) = insert q (fst ` set pg)"
proof -
  have "set (map fst (add_to_group (t, q) pg)) = insert q (set (map fst pg))"
    unfolding add_to_group_eq keys_dict_set by auto
  then show ?thesis by simp
qed

lemma keys_fold_groups:
  "fst ` set (fold add_to_group tp pg) = fst ` set pg \<union> snd ` set tp"
proof (induction tp arbitrary: pg)
  case Nil
  show ?case by simp
next
  case (Cons x tp)
  obtain t q where x: "x = (t, q)" by (cases x)
  show ?case by (simp add: Cons.IH x keys_add_to_group)
qed

lemma distinct_fold_groups:
  "distinct (map fst pg) \<Longrightarrow> distinct (map fst (fold add_to_group tp pg))"
proof (induction tp arbitrary: pg)
  case Nil
  then show ?case by simp
next
  case (Cons x tp)
  obtain t q where x: "x = (t, q)" by (cases x)
  from Cons.prems have "distinct (map fst (add_to_group (t, q) pg))"
    unfolding add_to_group_eq by (rule distinct_dict_set)
  from Cons.IH[OF this] show ?case by (simp add: x)
qed

lemma group_by_percentage_group:
  "group_of (group_by_percentage tp) p = map fst (filter (\<lambda>x. snd x = p) tp)"
proof -
  have "group_of [] p = []" by (simp add: group_of_def)
  then show ?thesis by (simp add: group_by_percentage_def group_of_fold)
qed

lemma group_by_percentage_keys:
  "set (map fst (group_by_percentage tp)) = snd ` set tp"
  "distinct (map fst (group_by_percentage tp))"
  using keys_fold_groups[of tp "[]"] distinct_fold_groups[of "[]" tp]
  by (simp_all add: group_by_percentage_def)

lemma sorted_reverse_props:
  "set (sorted_reverse ps) = set ps"
  "distinct ps \<Longrightarrow> distinct (sorted_reverse ps)"
  "sorted (map uminus (sorted_reverse ps))"
  by (simp_all add: sorted_reverse_def)

subsection \<open>sampling\<close>

lemma sample_item_props:
  assumes "xs \<noteq> []"
  shows "mset xs = add_mset (fst (sample_item_without_replacement r xs))
                     (mset (snd (sample_item_without_replacement r xs)))"
    and "length (snd (sample_item_without_replacement r xs)) < length xs"
proof -
  let ?i = "r mod length xs"
  from assms have i: "?i < length xs" by simp
  then have "xs = take ?i xs @ xs ! ?i # drop (Suc ?i) xs" by (rule id_take_nth_drop)
  then have "mset xs = mset (take ?i xs @ xs ! ?i # drop (Suc ?i) xs)" by simp
  then show "mset xs = add_mset (fst (sample_item_without_replacement r xs))
                     (mset (snd (sample_item_without_replacement r xs)))"
    by (simp add: sample_item_without_replacement_def Let_def)
  from i show "length (snd (sample_item_without_replacement r xs)) < length xs"
    by (simp add: sample_item_without_replacement_def Let_def)
qed

lemma sample_group_ranked:
  "\<exists>perm. fst (snd (sample_group rng tn g (k, ranked, tb))) = ranked @ perm \<and> mset perm = mset g"
proof (induction "length g" arbitrary: g k ranked tb rule: less_induct)
  case less
  show ?case
  proof (cases "g = []")
    case True
    then show ?thesis by (simp add: sample_group.simps)
  next
    case False
    let ?x = "fst (sample_item_without_replacement (rng k) g)"
    let ?rest = "snd (sample_item_without_replacement (rng k) g)"
    let ?tb = "if tn then dict_set ?x True (dict_set ?x False tb) else dict_set ?x False tb"
    from False have step: "sample_group rng tn g (k, ranked, tb)
        = sample_group rng tn ?rest (k + 1, ranked @ [?x], ?tb)"
      by (subst sample_group.simps) (simp add: Let_def)
    from sample_item_props[OF False, of "rng k"] have m: "mset g = add_mset ?x (mset ?rest)"
      and l: "length ?rest < length g" by auto
    from less[OF l, of "k + 1" "ranked @ [?x]" ?tb]
    obtain perm where p: "fst (snd (sample_group rng tn ?rest (k + 1, ranked @ [?x], ?tb)))
        = (ranked @ [?x]) @ perm" "mset perm = mset ?rest" by blast
    from p m step have "fst (snd (sample_group rng tn g (k, ranked, tb))) = ranked @ (?x # perm)
        \<and> mset (?x # perm) = mset g" by simp
    then show ?thesis by blast
  qed
qed

lemma sample_group_tie_broken:
  "map_of (snd (snd (sample_group rng tn g (k, ranked, tb)))) t
     = (if t \<in> set g then Some tn else map_of tb t)"
proof (induction "length g" arbitrary: g k ranked tb rule: less_induct)
  case less
  show ?case
  proof (cases "g = []")
    case True
    then show ?thesis by (simp add: sample_group.simps)
  next
    case False
    let ?x = "fst (sample_item_without_replacement (rng k) g)"
    let ?rest = "snd (sample_item_without_replacement (rng k) g)"
    let ?tb = "if tn then dict_set ?x True (dict_set ?x False tb) else dict_set ?x False tb"
    from False have step: "sample_group rng tn g (k, ranked, tb)
        = sample_group rng tn ?rest (k + 1, ranked @ [?x], ?tb)"
      by (subst sample_group.simps) (simp add: Let_def)
    from sample_item_props[OF False, of "rng k"] have m: "mset g = add_mset ?x (mset ?rest)"
      and l: "length ?rest < length g" by auto
    from m have s: "set g = insert ?x (set ?rest)"
      by (metis set_mset_add_mset_insert set_mset_mset)
    have tbx: "map_of ?tb t = (if t = ?x then Some tn else map_of tb t)"
      by (simp add: map_of_dict_set)
    from less[OF l, of "k + 1" "ranked @ [?x]" ?tb] step s tbx
    show ?thesis by auto
  qed
qed

subsection \<open>the loop over the groups\<close>

lemma rank_titles_fold:
  "rank_titles rng pg ps
     = fold (\<lambda>p st. sample_group rng (1 < length (group_of pg p)) (group_of pg p) st) ps (0, [], [])"
  by (simp add: rank_titles_def Let_def)

lemma fold_groups_ranked:
  assumes "\<forall>p\<in>set ps. \<forall>t\<in>set (grp p). f t = p"
  shows "\<exists>new. fst (snd (fold (\<lambda>p st. sample_group rng (1 < length (grp p)) (grp p) st) ps
                       (k, ranked, tb))) = ranked @ new
           \<and> mset new = (\<Sum>p\<leftarrow>ps. mset (grp p))
           \<and> map f new = concat (map (\<lambda>p. replicate (length (grp p)) p) ps)"
  using assms
proof (induction ps arbitrary: k ranked tb)
  case Nil
  then show ?case by simp
next
  case (Cons p ps)
  let ?st = "sample_group rng (1 < length (grp p)) (grp p) (k, ranked, tb)"
  obtain k1 r1 tb1 where st: "?st = (k1, r1, tb1)" by (cases ?st)
  from sample_group_ranked[of rng "1 < length (grp p)" "grp p" k ranked tb] st
  obtain perm where perm: "r1 = ranked @ perm" "mset perm = mset (grp p)" by auto
  from perm(2) have sp: "set perm = set (grp p)" "length perm = length (grp p)"
    by (metis set_mset_mset, metis size_mset)
  with Cons.prems have "\<forall>t\<in>set perm. f t = p" by simp
  then have fp: "map f perm = replicate (length (grp p)) p"
    using sp(2) by (metis map_replicate_const map_eq_conv)
  from Cons.prems have "\<forall>q\<in>set ps. \<forall>t\<in>set (grp q). f t = q" by simp
  from Cons.IH[OF this, of k1 r1 tb1]
  obtain new where new: "fst (snd (fold (\<lambda>p st. sample_group rng (1 < length (grp p)) (grp p) st) ps
                       (k1, r1, tb1))) = r1 @ new"
     "mset new = (\<Sum>q\<leftarrow>ps. mset (grp q))"
     "map f new = concat (map (\<lambda>q. replicate (length (grp q)) q) ps)" by blast
  have "fst (snd (fold (\<lambda>p st. sample_group rng (1 < length (grp p)) (grp p) st) (p # ps)
                       (k, ranked, tb))) = ranked @ (perm @ new)"
    using st new(1) perm(1) by simp
  moreover have "mset (perm @ new) = (\<Sum>q\<leftarrow>p # ps. mset (grp q))"
    using perm(2) new(2) by simp
  moreover have "map f (perm @ new) = concat (map (\<lambda>q. replicate (length (grp q)) q) (p # ps))"
    using fp new(3) by simp
  ultimately show ?case by blast
qed

lemma fold_groups_tie_broken:
  assumes "\<forall>p\<in>set ps. \<forall>t\<in>set (grp p). f t = p"
  shows "map_of (snd (snd (fold (\<lambda>p st. sample_group rng (1 < length (grp p)) (grp p) st) ps
                       (k, ranked, tb)))) t
           = (if \<exists>p\<in>set ps. t \<in> set (grp p) then Some (1 < length (grp (f t))) else map_of tb t)"
  using assms
proof (induction ps arbitrary: k ranked tb)
  case Nil
  then show ?case by simp
next
  case (Cons p ps)
  let ?st = "sample_group rng (1 < length (grp p)) (grp p) (k, ranked, tb)"
  obtain k1 r1 tb1 where st: "?st = (k1, r1, tb1)" by (cases ?st)
  from sample_group_tie_broken[of rng "1 < length (grp p)" "grp p" k ranked tb t] st
  have tb1: "map_of tb1 t = (if t \<in> set (grp p) then Some (1 < length (grp p)) else map_of tb t)"
    by simp
  from Cons.prems have rest: "\<forall>q\<in>set ps. \<forall>t\<in>set (grp q). f t = q"
    and here: "t \<in> set (grp p) \<Longrightarrow> f t = p" by simp_all
  from Cons.IH[OF rest, of k1 r1 tb1] st tb1 here
  show ?case by auto
qed

lemma sum_groups:
  fixes tp :: "(string \<times> rat) list"
  assumes "distinct ps" "snd ` set tp \<subseteq> set ps"
  shows "(\<Sum>p\<leftarrow>ps. mset (map fst (filter (\<lambda>x. snd x = p) tp))) = mset (map fst tp)"
  using assms(2)
proof (induction tp)
  case Nil
  show ?case by (induction ps) simp_all
next
  case (Cons x tp)
  have none: "q \<notin> set qs \<Longrightarrow> (\<Sum>p\<leftarrow>qs. if q = p then {#a#} else {#}) = {#}"
    for q :: rat and qs and a :: string
    by (induction qs) auto
  have one: "q \<in> set qs \<Longrightarrow> distinct qs \<Longrightarrow>
      (\<Sum>p\<leftarrow>qs. if q = p then {#a#} else {#}) = {#a#}" for q :: rat and qs and a :: string
    by (induction qs) (auto simp: none)
  from Cons.prems have in_ps: "snd x \<in> set ps" and sub: "snd ` set tp \<subseteq> set ps" by auto
  have "(\<Sum>p\<leftarrow>ps. mset (map fst (filter (\<lambda>y. snd y = p) (x # tp))))
      = (\<Sum>p\<leftarrow>ps. (if snd x = p then {#fst x#} else {#}) + mset (map fst (filter (\<lambda>y. snd y = p) tp)))"
    by (rule arg_cong[where f=sum_list], rule map_cong) auto
  also have "\<dots> = (\<Sum>p\<leftarrow>ps. if snd x = p then {#fst x#} else {#})
                   + (\<Sum>p\<leftarrow>ps. mset (map fst (filter (\<lambda>y. snd y = p) tp)))"
    by (simp add: sum_list_addf)
  also have "\<dots> = {#fst x#} + mset (map fst tp)"
    using one[OF in_ps assms(1)] Cons.IH[OF sub] by simp
  finally show ?case by simp
qed

lemma sorted_concat_replicate:
  "sorted (map f ps) \<Longrightarrow> sorted (map f (concat (map (\<lambda>p. replicate (n p) p) ps)))"
proof (induction ps)
  case Nil
  show ?case by simp
next
  case (Cons p ps)
  then have "sorted (map f (concat (map (\<lambda>p. replicate (n p) p) ps)))"
    and le: "\<forall>q\<in>set ps. f p \<le> f q" by auto
  then show ?case by (auto simp: sorted_append)
qed

lemma distinct_fold_count_title:
  "distinct (map fst tc) \<Longrightarrow> distinct (map fst (fold (\<lambda>title tc'. count_title tc' title) xs tc))"
  by (induction xs arbitrary: tc) (simp_all add: count_title_eq distinct_dict_set)

lemma distinct_count_votes: "distinct (map fst (count_votes rows))"
  by (simp add: count_votes_eq distinct_fold_count_title)

lemma calc_title_percentages_Inr:
  "calc_title_percentages tc n = Inr tp \<Longrightarrow> tp = map (\<lambda>(t, c). (t, percentage_of c n)) tc"
  by (auto simp: calc_title_percentages_def split: if_splits)

lemma keys_percentages: "map fst (map (\<lambda>(t, c). (t, g c)) tc) = map fst tc"
  by (induction tc) auto

lemma map_of_percentages:
  "map_of (map (\<lambda>(t, c). (t, g c)) tc) t = map_option g (map_of tc t)"
  by (induction tc) auto

lemma distinct_more_than_one:
  "distinct xs \<Longrightarrow> a \<in> set xs \<Longrightarrow> (1 < length xs) = (\<exists>b\<in>set xs. b \<noteq> a)"
proof -
  assume d: "distinct xs" and a: "a \<in> set xs"
  from d have c: "card (set xs) = length xs" by (rule distinct_card)
  show ?thesis
  proof
    assume "1 < length xs"
    with c have "card (set xs) > 1" by simp
    then have "set xs \<noteq> {a}" by auto
    with a show "\<exists>b\<in>set xs. b \<noteq> a" by auto
  next
    assume "\<exists>b\<in>set xs. b \<noteq> a"
    then obtain b where b: "b \<in> set xs" "b \<noteq> a" by auto
    with a have "{a, b} \<subseteq> set xs" by simp
    then have "card {a, b} \<le> card (set xs)" by (intro card_mono) auto
    with b c show "1 < length xs" by simp
  qed
qed

lemma rank_titles_props:
  assumes d: "distinct (map fst tp)"
    and r: "rank_titles rng (group_by_percentage tp)
              (sorted_reverse (map fst (group_by_percentage tp))) = (k, ranked, tb)"
  shows "mset ranked = mset (map fst tp)"
    and "sorted (map uminus (map (\<lambda>t. the (map_of tp t)) ranked))"
    and "\<forall>t\<in>fst ` set tp. map_of tb t
           = Some (1 < length (filter (\<lambda>x. snd x = the (map_of tp t)) tp))"
proof -
  let ?G = "group_by_percentage tp"
  let ?ps = "sorted_reverse (map fst ?G)"
  let ?grp = "group_of ?G"
  let ?f = "\<lambda>t. the (map_of tp t)"
  have grp: "?grp p = map fst (filter (\<lambda>x. snd x = p) tp)" for p
    by (rule group_by_percentage_group)
  have fgrp: "\<forall>p\<in>set ?ps. \<forall>t\<in>set (?grp p). ?f t = p"
  proof (intro ballI)
    fix p t assume "t \<in> set (?grp p)"
    then have "(t, p) \<in> set tp" by (auto simp: grp)
    with d show "?f t = p" by simp
  qed
  have ps: "set ?ps = snd ` set tp" "distinct ?ps" "sorted (map uminus ?ps)"
    using group_by_percentage_keys[of tp] by (simp_all add: sorted_reverse_props)
  from fold_groups_ranked[OF fgrp, of rng 0 "[]" "[]"] r
  obtain new where new: "ranked = new" "mset new = (\<Sum>p\<leftarrow>?ps. mset (?grp p))"
      "map ?f new = concat (map (\<lambda>p. replicate (length (?grp p)) p) ?ps)"
    by (auto simp: rank_titles_fold)
  have "(\<Sum>p\<leftarrow>?ps. mset (?grp p)) = mset (map fst tp)"
    unfolding grp using ps by (intro sum_groups) auto
  with new show m: "mset ranked = mset (map fst tp)" by simp
  from sorted_concat_replicate[OF ps(3), of "\<lambda>p. length (?grp p)"] new
  show "sorted (map uminus (map ?f ranked))" by simp
  show "\<forall>t\<in>fst ` set tp. map_of tb t = Some (1 < length (filter (\<lambda>x. snd x = ?f t) tp))"
  proof
    fix t assume t: "t \<in> fst ` set tp"
    then obtain p where tp: "(t, p) \<in> set tp" by auto
    with d have ft: "?f t = p" by simp
    from tp ps(1) have "p \<in> set ?ps" by force
    moreover from tp have "t \<in> set (?grp p)" by (force simp: grp)
    ultimately have ex: "\<exists>p\<in>set ?ps. t \<in> set (?grp p)" by blast
    from fold_groups_tie_broken[OF fgrp, of rng 0 "[]" "[]" t] r ex
    have "map_of tb t = Some (1 < length (?grp (?f t)))" by (simp add: rank_titles_fold)
    then show "map_of tb t = Some (1 < length (filter (\<lambda>x. snd x = ?f t) tp))"
      by (simp add: grp)
  qed
qed

lemma make_records_Inr:
  "make_records mk ts = Inr rs \<Longrightarrow> list_all2 (\<lambda>t r. mk t = Inr r) ts rs"
proof (induction ts arbitrary: rs)
  case Nil
  then show ?case by simp
next
  case (Cons t ts)
  from Cons.prems obtain r rs' where "mk t = Inr r" "make_records mk ts = Inr rs'" "rs = r # rs'"
    by (cases "mk t"; cases "make_records mk ts") auto
  with Cons.IH show ?case by simp
qed

lemma make_records_all:
  "\<forall>t\<in>set ts. \<exists>r. mk t = Inr r \<Longrightarrow> \<exists>rs. make_records mk ts = Inr rs"
  by (induction ts) auto

lemma lookup_Inr: "lookup d k = Inr v \<longleftrightarrow> map_of d k = Some v"
  by (simp add: lookup_def split: option.splits)

lemma make_record_Inr:
  assumes "make_record ups tp tc urls tb t = Inr r"
  shows "Title r = t" "map_of tp t = Some (Percentage r)" "map_of tc t = Some (Total_Votes r)"
    "map_of urls t = Some (URL r)"
    "\<exists>u. map_of ups t = Some u \<and> Uploader r = (if u \<noteq> PyNone then u else PyStr [])"
    "\<exists>b. map_of tb t = Some b \<and> Notes r = (if b then tie_note else [])"
proof -
  from assms obtain u p c url b where l: "lookup ups t = Inr u" "lookup tp t = Inr p"
      "lookup tc t = Inr c" "lookup urls t = Inr url" "lookup tb t = Inr b"
    and r: "r = \<lparr>Title = t, Uploader = (if u \<noteq> PyNone then u else PyStr []), Percentage = p,
            Total_Votes = c, URL = url,
            Notes = (if b then tie_note else [])\<rparr>"
    unfolding make_record_def
    by (cases "lookup ups t"; cases "lookup tp t"; cases "lookup tc t"; cases "lookup urls t";
        cases "lookup tb t") auto
  from l r show "Title r = t" "map_of tp t = Some (Percentage r)" "map_of tc t = Some (Total_Votes r)"
    "map_of urls t = Some (URL r)"
    "\<exists>u. map_of ups t = Some u \<and> Uploader r = (if u \<noteq> PyNone then u else PyStr [])"
    "\<exists>b. map_of tb t = Some b \<and> Notes r = (if b then tie_note else [])"
    by (simp_all add: lookup_Inr)
qed

text \<open>What a successful run of calc_ranked_records went through.\<close>

lemma calc_ranked_records_Inr:
  assumes "calc_ranked_records rng rows urls ups = Inr records"
  obtains n tp k ranked tb where
    "count_voters 0 0 rows = Inr n"
    "tp = map (\<lambda>(t, c). (t, percentage_of c n)) (count_votes rows)"
    "rank_titles rng (group_by_percentage tp)
       (sorted_reverse (map fst (group_by_percentage tp))) = (k, ranked, tb)"
    "make_records (make_record ups tp (count_votes rows) urls tb) ranked = Inr records"
proof -
  from assms obtain n where n: "count_voters 0 0 rows = Inr n"
    by (cases "count_voters 0 0 rows") (auto simp: calc_ranked_records_def Let_def)
  from assms n obtain tp where tp: "calc_title_percentages (count_votes rows) n = Inr tp"
    by (cases "calc_title_percentages (count_votes rows) n") (auto simp: calc_ranked_records_def Let_def)
  obtain k ranked tb where rk: "rank_titles rng (group_by_percentage tp)
       (sorted_reverse (map fst (group_by_percentage tp))) = (k, ranked, tb)"
    by (cases "rank_titles rng (group_by_percentage tp)
       (sorted_reverse (map fst (group_by_percentage tp)))")
  from assms n tp rk
  have "make_records (make_record ups tp (count_votes rows) urls tb) ranked = Inr records"
    by (simp add: calc_ranked_records_def Let_def)
  with n calc_title_percentages_Inr[OF tp] rk that show thesis by blast
qed

lemma tie_note_nonempty: "tie_note \<noteq> []"
  by (simp add: tie_note_def)


section \<open>Validation, denominators and ties\<close>

lemma count_voters_Inl:
  "count_voters i c rows = Inl e \<Longrightarrow> \<exists>v j. e = ballot_error v j"
  by (induction rows arbitrary: i c) (auto simp: Let_def split: if_splits)

lemma make_records_Inl:
  "make_records mk ts = Inl e \<Longrightarrow> \<exists>t\<in>set ts. mk t = Inl e"
proof (induction ts)
  case Nil
  then show ?case by simp
next
  case (Cons t ts)
  then show ?case
    by (cases "mk t"; cases "make_records mk ts") auto
qed

lemma lookup_Inl: "lookup d k = Inl e \<Longrightarrow> e = KeyError k"
  by (auto simp: lookup_def split: option.splits)

lemma make_record_Inl:
  "make_record ups tp tc urls tb t = Inl e \<Longrightarrow> e = KeyError t"
  unfolding make_record_def
  by (cases "lookup ups t"; cases "lookup tp t"; cases "lookup tc t"; cases "lookup urls t";
      cases "lookup tb t") (auto dest: lookup_Inl)

lemma calc_title_percentages_total:
  assumes "count_voters 0 0 rows = Inr n"
  shows "calc_title_percentages (count_votes rows) n
           = Inr (map (\<lambda>(t, c). (t, percentage_of c n)) (count_votes rows))"
proof (cases "n = 0")
  case True
  from count_voters_Inr[OF assms] True have "list_all valid_ballot rows" "counted_ballots rows = 0"
    by auto
  then have "count_votes rows = []" by (rule no_counted_all_blank)
  then show ?thesis by (simp add: calc_title_percentages_def)
next
  case False
  then show ?thesis by (simp add: calc_title_percentages_def)
qed

text \<open>
  Claim C10. The division by the number of counted ballots is never a division by zero.
  If validation passes with no counted ballot, every slot of every ballot is blank, the
  tally without the blank title is empty and the percentage step has nothing to divide;
  whenever validation passes the percentage step does not raise ZeroDivisionError, and
  neither does the whole of \<open>calc_ranked_records\<close>.
\<close>

theorem calc_ranked_records_no_division_by_zero:
  "(count_voters 0 0 title_rows = Inr 0 \<longrightarrow>
      (\<forall>row\<in>set title_rows. \<forall>title\<in>set row. title = [])
      \<and> count_votes title_rows = []
      \<and> calc_title_percentages (count_votes title_rows) 0 = Inr [])
   \<and> (\<forall>n. count_voters 0 0 title_rows = Inr n \<longrightarrow>
        calc_title_percentages (count_votes title_rows) n \<noteq> Inl ZeroDivisionError)
   \<and> calc_ranked_records rng title_rows titles_to_urls titles_to_uploaders \<noteq> Inl ZeroDivisionError"
proof (intro conjI impI allI)
  assume z: "count_voters 0 0 title_rows = Inr 0"
  from count_voters_Inr[OF z] have v: "list_all valid_ballot title_rows"
    and c: "counted_ballots title_rows = 0" by auto
  then have "\<forall>r\<in>set title_rows. vote_count_of r = 0"
    by (auto simp: list_all_iff valid_ballot_def counted_ballots_def filter_empty_conv)
  then show "\<forall>row\<in>set title_rows. \<forall>title\<in>set row. title = []"
    by (auto simp: vote_count_of_def filter_empty_conv)
  from v c show e: "count_votes title_rows = []" by (rule no_counted_all_blank)
  then show "calc_title_percentages (count_votes title_rows) 0 = Inr []"
    by (simp add: calc_title_percentages_def)
next
  fix n assume "count_voters 0 0 title_rows = Inr n"
  from calc_title_percentages_total[OF this]
  show "calc_title_percentages (count_votes title_rows) n \<noteq> Inl ZeroDivisionError" by simp
next
  show "calc_ranked_records rng title_rows titles_to_urls titles_to_uploaders \<noteq> Inl ZeroDivisionError"
  proof (cases "count_voters 0 0 title_rows")
    case (Inl e)
    from count_voters_Inl[OF Inl] obtain v j where "e = ballot_error v j" by blast
    with Inl show ?thesis by (simp add: calc_ranked_records_def ballot_error_def)
  next
    case (Inr n)
    obtain k ranked tb where rk: "rank_titles rng
        (group_by_percentage (map (\<lambda>(t, c). (t, percentage_of c n)) (count_votes title_rows)))
        (sorted_reverse (map fst (group_by_percentage
           (map (\<lambda>(t, c). (t, percentage_of c n)) (count_votes title_rows)))))
        = (k, ranked, tb)"
      by (cases "rank_titles rng
        (group_by_percentage (map (\<lambda>(t, c). (t, percentage_of c n)) (count_votes title_rows)))
        (sorted_reverse (map fst (group_by_percentage
           (map (\<lambda>(t, c). (t, percentage_of c n)) (count_votes title_rows)))))")
    show ?thesis
    proof
      assume a: "calc_ranked_records rng title_rows titles_to_urls titles_to_uploaders
                   = Inl ZeroDivisionError"
      with Inr calc_title_percentages_total[OF Inr] rk
      have "make_records (make_record titles_to_uploaders
               (map (\<lambda>(t, c). (t, percentage_of c n)) (count_votes title_rows))
               (count_votes title_rows) titles_to_urls tb) ranked = Inl ZeroDivisionError"
        by (simp add: calc_ranked_records_def Let_def)
      from make_records_Inl[OF this] obtain t where
        "make_record titles_to_uploaders
               (map (\<lambda>(t, c). (t, percentage_of c n)) (count_votes title_rows))
               (count_votes title_rows) titles_to_urls tb t = Inl ZeroDivisionError" by blast
      from make_record_Inl[OF this] show False by simp
    qed
  qed
qed

theorem calc_ranked_records_no_division_by_zero_witness:
  "count_voters 0 0 [[[], []], [[]]] = Inr 0
   \<and> count_votes [[[], []], [[]]] = []
   \<and> calc_title_percentages (count_votes [[[], []], [[]]]) 0 = Inr []
   \<and> calc_ranked_records (\<lambda>k. 0) [[[], []], [[]]] [] [] \<noteq> Inl ZeroDivisionError"
proof -
  have z: "count_voters 0 0 [[[], []], [[]]] = Inr 0"
    by (simp add: vote_count_of_def)
  from calc_ranked_records_no_division_by_zero [of "[[[], []], [[]]]" "\<lambda>k. 0" "[]" "[]"] z
  show ?thesis by blast
qed

lemma calc_ranked_records_drop_blank:
  assumes "list_all valid_ballot rows"
  shows "calc_ranked_records rng (filter (\<lambda>r. vote_count_of r \<noteq> 0) rows) urls ups
           = calc_ranked_records rng rows urls ups"
  using count_voters_drop_blank[OF assms] count_votes_drop_blank[of rows]
  by (simp add: calc_ranked_records_def)

lemma calc_ranked_records_percentage:
  assumes ok: "calc_ranked_records rng rows urls ups = Inr records"
    and r: "r \<in> set records"
  shows "Percentage r = percentage_of (Total_Votes r) (counted_ballots rows)"
proof -
  from ok obtain n tp k ranked tb where
    n: "count_voters 0 0 rows = Inr n" and
    tp: "tp = map (\<lambda>(t, c). (t, percentage_of c n)) (count_votes rows)" and
    mk: "make_records (make_record ups tp (count_votes rows) urls tb) ranked = Inr records"
    by (rule calc_ranked_records_Inr)
  from count_voters_Inr[OF n] have nn: "n = counted_ballots rows" by simp
  from r obtain i where i: "i < length records" "r = records ! i"
    by (auto simp: in_set_conv_nth)
  from list_all2_nthD2[OF make_records_Inr[OF mk] i(1)] i(2)
  have a: "make_record ups tp (count_votes rows) urls tb (ranked ! i) = Inr r" by simp
  from make_record_Inr(2,3)[OF a]
  have "map_of tp (ranked ! i) = Some (Percentage r)"
       "map_of (count_votes rows) (ranked ! i) = Some (Total_Votes r)" by auto
  then show ?thesis by (simp add: tp map_of_percentages nn)
qed

lemma map_of_count_title:
  "map_of (count_title tc t') t
     = (if t = t' then Some ((case map_of tc t of None \<Rightarrow> 0 | Some c \<Rightarrow> c) + 1) else map_of tc t)"
  by (cases "map_of tc t'") (simp_all add: count_title_eq map_of_dict_set)

lemma map_of_fold_count_title:
  "map_of (fold (\<lambda>title tc'. count_title tc' title) xs tc) t
     = (if count_list xs t = 0 then map_of tc t
        else Some ((case map_of tc t of None \<Rightarrow> 0 | Some c \<Rightarrow> c) + count_list xs t))"
proof (induction xs arbitrary: tc)
  case Nil
  show ?case by simp
next
  case (Cons x xs)
  show ?case
    by (cases "map_of tc t") (simp_all add: Cons.IH map_of_count_title)
qed

lemma count_list_filter: "count_list (filter P xs) t = (if P t then count_list xs t else 0)"
  by (induction xs) auto

lemma map_of_count_votes:
  "map_of (count_votes rows) t
     = (if t \<in> voted_titles rows then Some (count_list (concat rows) t) else None)"
proof -
  have "count_list (filter (\<lambda>t. t \<noteq> []) (concat rows)) t = 0 \<longleftrightarrow> t \<notin> voted_titles rows"
    by (auto simp: count_list_filter voted_titles_def count_list_0_iff)
  then show ?thesis
    by (auto simp: count_votes_eq map_of_fold_count_title count_list_filter voted_titles_def)
qed

lemma keys_count_votes: "fst ` set (count_votes rows) = voted_titles rows"
proof -
  have "t \<in> fst ` set (count_votes rows) \<longleftrightarrow> t \<in> voted_titles rows" for t
  proof -
    have "t \<in> fst ` set (count_votes rows) \<longleftrightarrow> map_of (count_votes rows) t \<noteq> None"
      by (simp add: map_of_eq_None_iff)
    also have "\<dots> \<longleftrightarrow> t \<in> voted_titles rows"
      by (simp add: map_of_count_votes)
    finally show ?thesis .
  qed
  then show ?thesis by blast
qed

lemma calc_ranked_records_titles:
  assumes "calc_ranked_records rng rows urls ups = Inr records"
  shows "mset (map Title records) = mset (map fst (count_votes rows))"
proof -
  from assms obtain n tp k ranked tb where
    tp: "tp = map (\<lambda>(t, c). (t, percentage_of c n)) (count_votes rows)" and
    rk: "rank_titles rng (group_by_percentage tp)
       (sorted_reverse (map fst (group_by_percentage tp))) = (k, ranked, tb)" and
    mk: "make_records (make_record ups tp (count_votes rows) urls tb) ranked = Inr records"
    by (rule calc_ranked_records_Inr)
  have keys: "map fst tp = map fst (count_votes rows)"
    unfolding tp by (rule keys_percentages)
  have d: "distinct (map fst tp)" unfolding keys by (rule distinct_count_votes)
  have "list_all2 (\<lambda>t r. Title r = t) ranked records"
    by (rule list_all2_mono[OF make_records_Inr[OF mk]]) (rule make_record_Inr(1))
  then have "map Title records = ranked"
    by (induction rule: list_all2_induct) auto
  with rank_titles_props(1)[OF d rk] keys show ?thesis by simp
qed

lemma calc_ranked_records_succeeds:
  assumes v: "list_all valid_ballot rows"
    and urls: "fst ` set (count_votes rows) \<subseteq> fst ` set titles_to_urls"
    and ups: "fst ` set (count_votes rows) \<subseteq> fst ` set titles_to_uploaders"
  shows "\<exists>records. calc_ranked_records rng rows titles_to_urls titles_to_uploaders = Inr records"
proof -
  let ?tc = "count_votes rows"
  let ?n = "counted_ballots rows"
  let ?tp = "map (\<lambda>(t, c). (t, percentage_of c ?n)) ?tc"
  from count_voters_valid[OF v, of 0 0] have n: "count_voters 0 0 rows = Inr ?n" by simp
  note pct = calc_title_percentages_total[OF n]
  have keys: "map fst ?tp = map fst ?tc" by (rule keys_percentages)
  have d: "distinct (map fst ?tp)" unfolding keys by (rule distinct_count_votes)
  obtain k ranked tb where rk: "rank_titles rng (group_by_percentage ?tp)
       (sorted_reverse (map fst (group_by_percentage ?tp))) = (k, ranked, tb)"
    by (cases "rank_titles rng (group_by_percentage ?tp)
       (sorted_reverse (map fst (group_by_percentage ?tp)))")
  note props = rank_titles_props[OF d rk]
  from props(1) have ranked_keys: "set ranked = fst ` set ?tp"
    by (metis set_mset_mset set_map)
  from keys have k2: "fst ` set ?tp = fst ` set ?tc" by (metis set_map)
  have "\<exists>r. make_record titles_to_uploaders ?tp ?tc titles_to_urls tb t = Inr r"
    if t: "t \<in> set ranked" for t
  proof -
    from t ranked_keys k2 have tk: "t \<in> fst ` set ?tc" "t \<in> fst ` set ?tp" by auto
    from tk(1) ups obtain u where u: "lookup titles_to_uploaders t = Inr u"
      by (cases "map_of titles_to_uploaders t") (auto simp: lookup_def map_of_eq_None_iff)
    from tk(2) obtain p where p: "lookup ?tp t = Inr p"
      by (cases "map_of ?tp t") (auto simp: lookup_def map_of_eq_None_iff)
    from tk(1) obtain c where c: "lookup ?tc t = Inr c"
      by (cases "map_of ?tc t") (auto simp: lookup_def map_of_eq_None_iff)
    from tk(1) urls obtain url where url: "lookup titles_to_urls t = Inr url"
      by (cases "map_of titles_to_urls t") (auto simp: lookup_def map_of_eq_None_iff)
    from props(3) tk(2) obtain b where b: "lookup tb t = Inr b"
      by (auto simp: lookup_def)
    from u p c url b show ?thesis by (simp add: make_record_def)
  qed
  then have "\<exists>records. make_records (make_record titles_to_uploaders ?tp ?tc titles_to_urls tb) ranked
                = Inr records"
    by (intro make_records_all) blast
  with n pct rk show ?thesis by (simp add: calc_ranked_records_def Let_def)
qed

lemma calc_ranked_records_votes:
  assumes ok: "calc_ranked_records rng rows urls ups = Inr records"
    and r: "r \<in> set records"
  shows "map_of (count_votes rows) (Title r) = Some (Total_Votes r)"
proof -
  from ok obtain n tp k ranked tb where
    mk: "make_records (make_record ups tp (count_votes rows) urls tb) ranked = Inr records"
    by (rule calc_ranked_records_Inr)
  from r obtain i where i: "i < length records" "r = records ! i"
    by (auto simp: in_set_conv_nth)
  from list_all2_nthD2[OF make_records_Inr[OF mk] i(1)] i(2)
  have a: "make_record ups tp (count_votes rows) urls tb (ranked ! i) = Inr r" by simp
  from make_record_Inr(1,3)[OF a] show ?thesis by simp
qed

text \<open>
  Claim C1. In \<open>calc_ranked_records\<close>: when the first ballot that is neither blank nor
  of five or more votes has between 1 and 4 votes, the run fails with the ValueError
  whose message gives that ballot's vote count and its line, the index plus two. When
  every ballot is blank or has five or more votes, validation succeeds and counts
  exactly the ballots with five or more votes, and the blank ballots can be removed
  from the input without changing the result; if the run returns records, there is one
  for each voted title, with the number of times the title occurs in the ballots as
  total votes, and with that number divided by the number of ballots of five or more
  votes, times 100, as percentage. When moreover both mappings have an entry for every
  voted title, the run does return records.
\<close>

theorem calc_ranked_records_ballot_validation:
  "(list_all valid_ballot pre \<and> 1 \<le> vote_count_of b \<and> vote_count_of b \<le> 4 \<longrightarrow>
      calc_ranked_records rng (pre @ b # post) titles_to_urls titles_to_uploaders
        = Inl (ValueError (''Only '' @ str_nat (vote_count_of b)
                           @ '' votes included in ballot line ~'' @ str_nat (length pre + 2)
                           @ '' when at least 5 are required'')))
   \<and> (list_all valid_ballot title_rows \<longrightarrow>
        count_voters 0 0 title_rows = Inr (counted_ballots title_rows)
        \<and> calc_ranked_records rng (filter (\<lambda>r. vote_count_of r \<noteq> 0) title_rows)
              titles_to_urls titles_to_uploaders
            = calc_ranked_records rng title_rows titles_to_urls titles_to_uploaders
        \<and> (\<forall>records. calc_ranked_records rng title_rows titles_to_urls titles_to_uploaders
                         = Inr records \<longrightarrow>
              set (map Title records) = voted_titles title_rows
            \<and> distinct (map Title records)
            \<and> (\<forall>r\<in>set records.
                  Total_Votes r = count_list (concat title_rows) (Title r)
                \<and> Percentage r
                    = of_nat (Total_Votes r)
                      / of_nat (length (filter (\<lambda>row. 5 \<le> length (filter (\<lambda>t. t \<noteq> []) row))
                                          title_rows))
                      * 100)))
   \<and> (list_all valid_ballot title_rows
        \<and> voted_titles title_rows \<subseteq> fst ` set titles_to_urls
        \<and> voted_titles title_rows \<subseteq> fst ` set titles_to_uploaders \<longrightarrow>
        (\<exists>records.
           calc_ranked_records rng title_rows titles_to_urls titles_to_uploaders = Inr records))"
proof (intro conjI impI allI ballI)
  assume a: "list_all valid_ballot pre \<and> 1 \<le> vote_count_of b \<and> vote_count_of b \<le> 4"
  then have "\<not> valid_ballot b" by (simp add: valid_ballot_def)
  with a have "count_voters 0 0 (pre @ b # post)
                 = Inl (ballot_error (vote_count_of b) (0 + length pre))"
    by (intro count_voters_invalid) simp_all
  then show "calc_ranked_records rng (pre @ b # post) titles_to_urls titles_to_uploaders
        = Inl (ValueError (''Only '' @ str_nat (vote_count_of b)
                           @ '' votes included in ballot line ~'' @ str_nat (length pre + 2)
                           @ '' when at least 5 are required''))"
    by (simp add: calc_ranked_records_def ballot_error_def)
next
  assume v: "list_all valid_ballot title_rows"
  from count_voters_valid[OF v, of 0 0]
  show "count_voters 0 0 title_rows = Inr (counted_ballots title_rows)" by simp
  from v show "calc_ranked_records rng (filter (\<lambda>r. vote_count_of r \<noteq> 0) title_rows)
              titles_to_urls titles_to_uploaders
            = calc_ranked_records rng title_rows titles_to_urls titles_to_uploaders"
    by (rule calc_ranked_records_drop_blank)
next
  fix records
  assume c: "calc_ranked_records rng title_rows titles_to_urls titles_to_uploaders = Inr records"
  note m = calc_ranked_records_titles[OF c]
  from m have "set (map Title records) = set (map fst (count_votes title_rows))"
    by (metis set_mset_mset)
  then show "set (map Title records) = voted_titles title_rows"
    using keys_count_votes[of title_rows] by simp
  from m distinct_count_votes[of title_rows] show "distinct (map Title records)"
    by (metis mset_eq_imp_distinct_iff)
next
  fix records r
  assume c: "calc_ranked_records rng title_rows titles_to_urls titles_to_uploaders = Inr records"
    and r: "r \<in> set records"
  from calc_ranked_records_votes[OF c r]
  have "map_of (count_votes title_rows) (Title r) = Some (Total_Votes r)" .
  then show "Total_Votes r = count_list (concat title_rows) (Title r)"
    by (simp add: map_of_count_votes split: if_splits)
next
  fix records r
  assume c: "calc_ranked_records rng title_rows titles_to_urls titles_to_uploaders = Inr records"
    and r: "r \<in> set records"
  have cb: "counted_ballots title_rows
      = length (filter (\<lambda>row. 5 \<le> length (filter (\<lambda>t. t \<noteq> []) row)) title_rows)"
    by (simp add: counted_ballots_def vote_count_of_def)
  from calc_ranked_records_percentage[OF c r]
  show "Percentage r
          = of_nat (Total_Votes r)
            / of_nat (length (filter (\<lambda>row. 5 \<le> length (filter (\<lambda>t. t \<noteq> []) row)) title_rows))
            * 100"
    unfolding cb [symmetric] by (simp add: percentage_of_def)
next
  assume a: "list_all valid_ballot title_rows
        \<and> voted_titles title_rows \<subseteq> fst ` set titles_to_urls
        \<and> voted_titles title_rows \<subseteq> fst ` set titles_to_uploaders"
  then have v: "list_all valid_ballot title_rows" by simp
  from a have "fst ` set (count_votes title_rows) \<subseteq> fst ` set titles_to_urls"
    "fst ` set (count_votes title_rows) \<subseteq> fst ` set titles_to_uploaders"
    by (simp_all add: keys_count_votes)
  from calc_ranked_records_succeeds[OF v this, of rng]
  show "\<exists>records.
           calc_ranked_records rng title_rows titles_to_urls titles_to_uploaders = Inr records" .
qed

theorem calc_ranked_records_ballot_validation_witness:
  "calc_ranked_records (\<lambda>k. 0)
       [[''A'', ''B'', ''C'', ''D'', ''E''], [''A'', ''B'', ''C'', ''D'', []]] [] []
     = Inl (ValueError ''Only 4 votes included in ballot line ~3 when at least 5 are required'')
   \<and> count_voters 0 0
        [[''A'', ''B'', ''C'', ''D'', ''E''], [[], [], [], [], []], [''A'', ''B'', ''C'', ''D'', ''F'']]
      = Inr 2
   \<and> (\<exists>records.
         calc_ranked_records (\<lambda>k. 0)
           [[''A'', ''B'', ''C'', ''D'', ''E''], [[], [], [], [], []], [''A'', ''B'', ''C'', ''D'', ''F'']]
           (map (\<lambda>t. (t, ''https://example.org/'' @ t)) [''A'', ''B'', ''C'', ''D'', ''E'', ''F''])
           (map (\<lambda>t. (t, PyNone)) [''A'', ''B'', ''C'', ''D'', ''E'', ''F''])
           = Inr records
       \<and> calc_ranked_records (\<lambda>k. 0)
           [[''A'', ''B'', ''C'', ''D'', ''E''], [''A'', ''B'', ''C'', ''D'', ''F'']]
           (map (\<lambda>t. (t, ''https://example.org/'' @ t)) [''A'', ''B'', ''C'', ''D'', ''E'', ''F''])
           (map (\<lambda>t. (t, PyNone)) [''A'', ''B'', ''C'', ''D'', ''E'', ''F''])
           = Inr records
       \<and> map (\<lambda>r. (Title r, Total_Votes r, Percentage r)) records
           = [(''A'', 2, 100), (''B'', 2, 100), (''C'', 2, 100), (''D'', 2, 100),
              (''E'', 1, 50), (''F'', 1, 50)])"
proof -
  let ?full = "[''A'', ''B'', ''C'', ''D'', ''E'']"
  let ?four = "[''A'', ''B'', ''C'', ''D'', []]"
  let ?blank = "[[], [], [], [], []] :: string list"
  let ?other = "[''A'', ''B'', ''C'', ''D'', ''F'']"
  let ?rows = "[?full, ?blank, ?other]"
  let ?urls = "map (\<lambda>t. (t, ''https://example.org/'' @ t)) [''A'', ''B'', ''C'', ''D'', ''E'', ''F'']"
  let ?ups = "map (\<lambda>t. (t, PyNone)) [''A'', ''B'', ''C'', ''D'', ''E'', ''F'']"
  let ?out = "[(''A'', 2, 100), (''B'', 2, 100), (''C'', 2, 100), (''D'', 2, 100),
              (''E'', 1, 50), (''F'', 1, 50)] :: (string \<times> nat \<times> rat) list"
  have vc: "vote_count_of ?full = 5" "vote_count_of ?four = 4" "vote_count_of ?blank = 0"
    "vote_count_of ?other = 5"
    by (simp_all add: vote_count_of_def)
  have s: "str_nat 4 = ''4''" "str_nat (Suc (Suc (Suc 0))) = ''3''"
    by (simp_all add: str_nat.simps)
  have v1: "list_all valid_ballot [?full] \<and> 1 \<le> vote_count_of ?four \<and> vote_count_of ?four \<le> 4"
    by (simp add: valid_ballot_def vc)
  have v2: "list_all valid_ballot ?rows"
    by (simp add: valid_ballot_def vc)
  have cb: "counted_ballots ?rows = 2"
    by (simp add: counted_ballots_def vc)
  have f: "filter (\<lambda>r. vote_count_of r \<noteq> 0) ?rows = [?full, ?other]"
    by (simp add: vc)
  have vt: "voted_titles ?rows = {''A'', ''B'', ''C'', ''D'', ''E'', ''F''}"
    by (auto simp: voted_titles_def)
  have k1: "voted_titles ?rows \<subseteq> fst ` set ?urls" unfolding vt by simp
  have k2: "voted_titles ?rows \<subseteq> fst ` set ?ups" unfolding vt by simp
  note base = calc_ranked_records_ballot_validation
  from base [where pre="[?full]" and b="?four" and rng="\<lambda>k. 0" and post="[]"
      and titles_to_urls="[]" and titles_to_uploaders="[]" and title_rows="[]", THEN conjunct1, THEN mp, OF v1]
  have a: "calc_ranked_records (\<lambda>k. 0) [?full, ?four] [] []
     = Inl (ValueError ''Only 4 votes included in ballot line ~3 when at least 5 are required'')"
    by (simp add: vc s)
  note valid = base [where pre="[]" and b="?four" and rng="\<lambda>k. 0" and post="[]"
      and titles_to_urls="?urls" and titles_to_uploaders="?ups" and title_rows="?rows",
      THEN conjunct2, THEN conjunct1, THEN mp, OF v2]
  from valid [THEN conjunct1]
  have b: "count_voters 0 0 ?rows = Inr 2"
    unfolding cb .
  from valid [THEN conjunct2, THEN conjunct1]
  have d: "calc_ranked_records (\<lambda>k. 0) [?full, ?other] ?urls ?ups
             = calc_ranked_records (\<lambda>k. 0) ?rows ?urls ?ups"
    unfolding f .
  from base [where pre="[]" and b="?four" and rng="\<lambda>k. 0" and post="[]"
      and titles_to_urls="?urls" and titles_to_uploaders="?ups" and title_rows="?rows",
      THEN conjunct2, THEN conjunct2, THEN mp, OF conjI[OF v2 conjI[OF k1 k2]]]
  have e: "\<exists>records. calc_ranked_records (\<lambda>k. 0) ?rows ?urls ?ups = Inr records
       \<and> calc_ranked_records (\<lambda>k. 0) [?full, ?other] ?urls ?ups = Inr records
       \<and> map (\<lambda>r. (Title r, Total_Votes r, Percentage r)) records = ?out"
  proof (elim exE)
    fix records
    assume c: "calc_ranked_records (\<lambda>k. 0) ?rows ?urls ?ups = Inr records"
    have ev: "map_sum id (map (\<lambda>r. (Title r, Total_Votes r, Percentage r)))
                (calc_ranked_records (\<lambda>k. 0) ?rows ?urls ?ups) = Inr ?out"
      by code_simp
    have m: "map (\<lambda>r. (Title r, Total_Votes r, Percentage r)) records = ?out"
      using ev unfolding c by simp
    have d': "calc_ranked_records (\<lambda>k. 0) [?full, ?other] ?urls ?ups = Inr records"
      unfolding d by (rule c)
    show ?thesis
      by (rule exI[where x=records]) (rule conjI[OF c conjI[OF d' m]])
  qed
  show ?thesis by (rule conjI[OF a conjI[OF b e]])
qed

text \<open>
  Claim C3. In the output of \<open>calc_ranked_records\<close> the percentages never increase
  from one record to the next, so that titles of equal percentage are adjacent and the
  groups come in descending order; the records are exactly the tallied titles, each
  once; a record carries the tie-break note if and only if another title has the same
  percentage, and an empty note otherwise. This holds for every sequence of random
  draws.
\<close>

theorem calc_ranked_records_ties:
  assumes "calc_ranked_records rng title_rows titles_to_urls titles_to_uploaders = Inr records"
  shows "sorted_wrt (\<lambda>a b. Percentage b \<le> Percentage a) records
       \<and> mset (map Title records) = mset (map fst (count_votes title_rows))
       \<and> distinct (map Title records)
       \<and> (\<forall>r\<in>set records.
            (Notes r = tie_note
               \<longleftrightarrow> (\<exists>r'\<in>set records. Title r' \<noteq> Title r \<and> Percentage r' = Percentage r))
          \<and> (Notes r = []
               \<longleftrightarrow> \<not> (\<exists>r'\<in>set records. Title r' \<noteq> Title r \<and> Percentage r' = Percentage r)))"
proof -
  from assms obtain n tp k ranked tb where
    n: "count_voters 0 0 title_rows = Inr n" and
    tp: "tp = map (\<lambda>(t, c). (t, percentage_of c n)) (count_votes title_rows)" and
    rk: "rank_titles rng (group_by_percentage tp)
       (sorted_reverse (map fst (group_by_percentage tp))) = (k, ranked, tb)" and
    mk: "make_records (make_record titles_to_uploaders tp (count_votes title_rows) titles_to_urls tb)
           ranked = Inr records"
    by (rule calc_ranked_records_Inr)
  let ?f = "\<lambda>t. the (map_of tp t)"
  have keys: "map fst tp = map fst (count_votes title_rows)"
    unfolding tp by (rule keys_percentages)
  with distinct_count_votes[of title_rows] have d: "distinct (map fst tp)" by simp
  then have dtp: "distinct tp" by (rule distinct_map[THEN iffD1, THEN conjunct1])
  note props = rank_titles_props[OF d rk]
  have la: "list_all2 (\<lambda>t r. Title r = t \<and> Percentage r = ?f t
              \<and> (\<exists>b. map_of tb t = Some b
                    \<and> Notes r = (if b then tie_note else []))) ranked records"
  proof (rule list_all2_mono[OF make_records_Inr[OF mk]])
    fix t r
    assume a: "make_record titles_to_uploaders tp (count_votes title_rows) titles_to_urls tb t = Inr r"
    from make_record_Inr(1,2,6)[OF a]
    show "Title r = t \<and> Percentage r = ?f t
              \<and> (\<exists>b. map_of tb t = Some b \<and> Notes r = (if b then tie_note else []))"
      by simp
  qed
  then have titles: "map Title records = ranked"
    by (induction rule: list_all2_induct) auto
  from la have pcts: "map Percentage records = map ?f ranked"
    by (induction rule: list_all2_induct) auto
  have "sorted (map uminus (map Percentage records))"
    unfolding pcts by (rule props(2))
  then have "sorted (map (\<lambda>r. - Percentage r) records)"
    by (simp add: comp_def)
  then have s: "sorted_wrt (\<lambda>a b. Percentage b \<le> Percentage a) records"
    by (simp add: sorted_map)
  from props(1) titles keys
  have m: "mset (map Title records) = mset (map fst (count_votes title_rows))" by simp
  with distinct_count_votes[of title_rows] have dt: "distinct (map Title records)"
    by (metis mset_eq_imp_distinct_iff)
  from props(1) have ranked_keys: "set ranked = fst ` set tp"
    by (metis set_mset_mset set_map)
  have rec: "\<exists>b. Title r \<in> fst ` set tp \<and> Percentage r = ?f (Title r) \<and> map_of tb (Title r) = Some b
              \<and> Notes r = (if b then tie_note else [])"
    if "r \<in> set records" for r
  proof -
    from that obtain i where i: "i < length records" "r = records ! i"
      by (auto simp: in_set_conv_nth)
    from la have len: "length ranked = length records" by (rule list_all2_lengthD)
    from list_all2_nthD2[OF la i(1)] i(2)
    have p: "Title r = ranked ! i \<and> Percentage r = ?f (ranked ! i)
              \<and> (\<exists>b. map_of tb (ranked ! i) = Some b
                    \<and> Notes r = (if b then tie_note else []))"
      by simp
    from i(1) len have "ranked ! i \<in> set ranked" by simp
    with ranked_keys p show ?thesis by auto
  qed
  have tie: "(\<exists>r'\<in>set records. Title r' \<noteq> Title r \<and> Percentage r' = Percentage r)
              = (1 < length (filter (\<lambda>x. snd x = ?f (Title r)) tp))"
    if r: "r \<in> set records" for r
  proof -
    let ?t = "Title r"
    let ?grp = "filter (\<lambda>x. snd x = ?f ?t) tp"
    from rec[OF r] have tk: "?t \<in> fst ` set tp" and pr: "Percentage r = ?f ?t" by auto
    from tk d have mem: "(?t, ?f ?t) \<in> set ?grp" by auto
    from dtp have dg: "distinct ?grp" by simp
    have "(1 < length ?grp) = (\<exists>b\<in>set ?grp. b \<noteq> (?t, ?f ?t))"
      using dg mem by (rule distinct_more_than_one)
    also have "\<dots> = (\<exists>r'\<in>set records. Title r' \<noteq> ?t \<and> Percentage r' = Percentage r)"
    proof
      assume "\<exists>b\<in>set ?grp. b \<noteq> (?t, ?f ?t)"
      then obtain t' where b: "(t', ?f ?t) \<in> set tp" "t' \<noteq> ?t" by auto
      then have "t' \<in> set ranked" using ranked_keys by force
      with titles obtain r' where r': "r' \<in> set records" "Title r' = t'"
        by (metis (no_types, lifting) imageE set_map)
      from rec[OF r'(1)] r'(2) have "Percentage r' = ?f t'" by auto
      also from b(1) d have "?f t' = ?f ?t" by simp
      finally show "\<exists>r'\<in>set records. Title r' \<noteq> ?t \<and> Percentage r' = Percentage r"
        using r' b(2) pr by auto
    next
      assume "\<exists>r'\<in>set records. Title r' \<noteq> ?t \<and> Percentage r' = Percentage r"
      then obtain r' where r': "r' \<in> set records" "Title r' \<noteq> ?t" "Percentage r' = Percentage r"
        by auto
      from rec[OF r'(1)] have "Title r' \<in> fst ` set tp" "Percentage r' = ?f (Title r')" by auto
      with d have "(Title r', Percentage r') \<in> set tp" by auto
      with r'(2,3) pr show "\<exists>b\<in>set ?grp. b \<noteq> (?t, ?f ?t)" by force
    qed
    finally show ?thesis by simp
  qed
  have note_iff: "(Notes r = tie_note
               \<longleftrightarrow> (\<exists>r'\<in>set records. Title r' \<noteq> Title r \<and> Percentage r' = Percentage r))
          \<and> (Notes r = []
               \<longleftrightarrow> \<not> (\<exists>r'\<in>set records. Title r' \<noteq> Title r \<and> Percentage r' = Percentage r))"
    if r: "r \<in> set records" for r
  proof -
    from rec[OF r] obtain b where b: "Title r \<in> fst ` set tp" "map_of tb (Title r) = Some b"
      "Notes r = (if b then tie_note else [])" by auto
    from props(3) b(1,2) have "b = (1 < length (filter (\<lambda>x. snd x = ?f (Title r)) tp))" by auto
    with tie[OF r] b(3) tie_note_nonempty show ?thesis by auto
  qed
  from s m dt note_iff show ?thesis by blast
qed

theorem calc_ranked_records_ties_witness:
  "\<exists>records.
     calc_ranked_records (\<lambda>k. k)
       [[''A'', ''B'', ''C'', ''D'', ''E''], [''A'', ''B'', ''C'', ''D'', ''E''],
        [''A'', ''B'', ''C'', ''D'', ''F'']]
       (map (\<lambda>t. (t, ''https://example.org/'' @ t)) [''A'', ''B'', ''C'', ''D'', ''E'', ''F''])
       (map (\<lambda>t. (t, PyNone)) [''A'', ''B'', ''C'', ''D'', ''E'', ''F''])
       = Inr records
     \<and> map (\<lambda>r. (Title r, Percentage r, Notes r)) records
         = [(''A'', 100, tie_note), (''C'', 100, tie_note), (''B'', 100, tie_note),
            (''D'', 100, tie_note), (''E'', 200 / 3, []), (''F'', 100 / 3, [])]
     \<and> sorted_wrt (\<lambda>a b. Percentage b \<le> Percentage a) records
     \<and> distinct (map Title records)"
proof -
  let ?run = "calc_ranked_records (\<lambda>k. k)
       [[''A'', ''B'', ''C'', ''D'', ''E''], [''A'', ''B'', ''C'', ''D'', ''E''],
        [''A'', ''B'', ''C'', ''D'', ''F'']]
       (map (\<lambda>t. (t, ''https://example.org/'' @ t)) [''A'', ''B'', ''C'', ''D'', ''E'', ''F''])
       (map (\<lambda>t. (t, PyNone)) [''A'', ''B'', ''C'', ''D'', ''E'', ''F''])"
  let ?out = "[(''A'', 100, tie_note), (''C'', 100, tie_note), (''B'', 100, tie_note),
            (''D'', 100, tie_note), (''E'', 200 / 3, []), (''F'', 100 / 3, [])]
            :: (string \<times> rat \<times> string) list"
  have ev: "map_sum id (map (\<lambda>r. (Title r, Percentage r, Notes r))) ?run = Inr ?out"
    by code_simp
  obtain records where r: "?run = Inr records"
    and m: "map (\<lambda>r. (Title r, Percentage r, Notes r)) records = ?out"
  proof (cases ?run)
    case (Inl e)
    with ev show ?thesis by simp
  next
    case (Inr records)
    with ev have m': "map (\<lambda>r. (Title r, Percentage r, Notes r)) records = ?out" by simp
    show ?thesis by (rule that[OF Inr m'])
  qed
  note c = calc_ranked_records_ties [OF r]
  have s: "sorted_wrt (\<lambda>a b. Percentage b \<le> Percentage a) records"
    by (rule c[THEN conjunct1])
  have d: "distinct (map Title records)"
    by (rule c[THEN conjunct2, THEN conjunct2, THEN conjunct1])
  have "?run = Inr records
     \<and> map (\<lambda>r. (Title r, Percentage r, Notes r)) records = ?out
     \<and> sorted_wrt (\<lambda>a b. Percentage b \<le> Percentage a) records
     \<and> distinct (map Title records)"
    by (rule conjI[OF r conjI[OF m conjI[OF s d]]])
  then show ?thesis by (rule exI)
qed

section \<open>Uploaders of the ranked records\<close>

lemma has_metadata_entry_cases:
  assumes "has_metadata_entry vd u"
  obtains "map_of vd u = Some None"
  | d x where "map_of vd u = Some (Some d)" "map_of d ''uploader'' = Some x"
  using assms unfolding has_metadata_entry_def
  by (auto split: option.splits)

lemma titles_to_uploaders_items_Inr:
  assumes "distinct (map fst items)" "\<forall>u\<in>snd ` set items. has_metadata_entry vd u"
  shows "\<exists>ups. titles_to_uploaders_items items vd acc = Inr ups
           \<and> (\<forall>t. map_of ups t
                  = (case map_of items t of
                       None \<Rightarrow> map_of acc t
                     | Some u \<Rightarrow> Some (case the (map_of vd u) of
                                         None \<Rightarrow> PyNone
                                       | Some d \<Rightarrow> the (map_of d ''uploader''))))"
  using assms
proof (induction items arbitrary: acc)
  case Nil
  then show ?case by simp
next
  case (Cons item items)
  obtain title url where item: "item = (title, url)" by (cases item)
  let ?up = "case the (map_of vd url) of None \<Rightarrow> PyNone | Some d \<Rightarrow> the (map_of d ''uploader'')"
  let ?acc = "dict_set title ?up acc"
  from Cons.prems item have h: "has_metadata_entry vd url" by simp
  have step: "titles_to_uploaders_items (item # items) vd acc
                = titles_to_uploaders_items items vd ?acc"
    using h by (rule has_metadata_entry_cases) (simp_all add: item lookup_def)
  from Cons.prems have d: "distinct (map fst items)" and
    a: "\<forall>u\<in>snd ` set items. has_metadata_entry vd u" and
    fresh: "map_of items title = None"
    by (auto simp: item map_of_eq_None_iff)
  from Cons.IH[OF d a, of ?acc] obtain ups where
    ups: "titles_to_uploaders_items items vd ?acc = Inr ups"
      "\<forall>t. map_of ups t
                  = (case map_of items t of
                       None \<Rightarrow> map_of ?acc t
                     | Some u \<Rightarrow> Some (case the (map_of vd u) of
                                         None \<Rightarrow> PyNone
                                       | Some d \<Rightarrow> the (map_of d ''uploader'')))"
    by blast
  have "titles_to_uploaders_items (item # items) vd acc = Inr ups"
    using ups(1) step by simp
  moreover have "map_of ups t
                  = (case map_of (item # items) t of
                       None \<Rightarrow> map_of acc t
                     | Some u \<Rightarrow> Some (case the (map_of vd u) of
                                         None \<Rightarrow> PyNone
                                       | Some d \<Rightarrow> the (map_of d ''uploader'')))" for t
    using ups(2) fresh
    by (cases "t = title"; cases "map_of items t") (simp_all add: item map_of_dict_set)
  ultimately show ?case by blast
qed

lemma titles_to_uploaders_items_KeyError:
  assumes "\<forall>x\<in>snd ` set pre. has_metadata_entry vd x" "\<not> has_metadata_entry vd u"
  shows "titles_to_uploaders_items (pre @ (t, u) # post) vd acc
           = Inl (KeyError (if map_of vd u = None then u else ''uploader''))"
  using assms(1)
proof (induction pre arbitrary: acc)
  case Nil
  from assms(2) show ?case
    by (auto simp: has_metadata_entry_def lookup_def split: option.splits)
next
  case (Cons item pre)
  obtain title url where item: "item = (title, url)" by (cases item)
  from Cons.prems item have h: "has_metadata_entry vd url" by simp
  let ?up = "case the (map_of vd url) of None \<Rightarrow> PyNone | Some d \<Rightarrow> the (map_of d ''uploader'')"
  have step: "titles_to_uploaders_items ((item # pre) @ (t, u) # post) vd acc
                = titles_to_uploaders_items (pre @ (t, u) # post) vd (dict_set title ?up acc)"
    using h by (rule has_metadata_entry_cases) (simp_all add: item lookup_def)
  from Cons.prems have "\<forall>x\<in>snd ` set pre. has_metadata_entry vd x" by simp
  from Cons.IH[OF this] step show ?case by simp
qed

lemma calc_ranked_records_uploader:
  assumes ok: "calc_ranked_records rng rows urls ups = Inr records"
    and r: "r \<in> set records"
  shows "\<exists>u. map_of ups (Title r) = Some u \<and> Uploader r = (if u \<noteq> PyNone then u else PyStr [])"
    and "map_of urls (Title r) = Some (URL r)"
proof -
  from ok obtain n tp k ranked tb where
    mk: "make_records (make_record ups tp (count_votes rows) urls tb) ranked = Inr records"
    by (rule calc_ranked_records_Inr)
  from r obtain i where i: "i < length records" "r = records ! i"
    by (auto simp: in_set_conv_nth)
  from list_all2_nthD2[OF make_records_Inr[OF mk] i(1)] i(2)
  have a: "make_record ups tp (count_votes rows) urls tb (ranked ! i) = Inr r" by simp
  from make_record_Inr(1,5)[OF a]
  show "\<exists>u. map_of ups (Title r) = Some u \<and> Uploader r = (if u \<noteq> PyNone then u else PyStr [])"
    by simp
  from make_record_Inr(1,4)[OF a] show "map_of urls (Title r) = Some (URL r)" by simp
qed

lemma calc_ranked_records_missing_key:
  assumes v: "list_all valid_ballot rows"
    and missing: "\<not> voted_titles rows \<subseteq> fst ` set urls \<inter> fst ` set ups"
  shows "\<exists>t\<in>voted_titles rows. t \<notin> fst ` set urls \<inter> fst ` set ups
           \<and> calc_ranked_records rng rows urls ups = Inl (KeyError t)"
proof -
  let ?tc = "count_votes rows"
  let ?n = "counted_ballots rows"
  let ?tp = "map (\<lambda>(t, c). (t, percentage_of c ?n)) ?tc"
  from count_voters_valid[OF v, of 0 0] have n: "count_voters 0 0 rows = Inr ?n" by simp
  note pct = calc_title_percentages_total[OF n]
  have keys: "map fst ?tp = map fst ?tc" by (rule keys_percentages)
  have d: "distinct (map fst ?tp)" unfolding keys by (rule distinct_count_votes)
  obtain k ranked tb where rk: "rank_titles rng (group_by_percentage ?tp)
       (sorted_reverse (map fst (group_by_percentage ?tp))) = (k, ranked, tb)"
    by (cases "rank_titles rng (group_by_percentage ?tp)
       (sorted_reverse (map fst (group_by_percentage ?tp)))")
  note props = rank_titles_props[OF d rk]
  from props(1) have ranked_keys: "set ranked = fst ` set ?tp"
    by (metis set_mset_mset set_map)
  from keys have k2: "fst ` set ?tp = fst ` set ?tc" by (metis set_map)
  from ranked_keys k2 have rv: "set ranked = voted_titles rows"
    by (simp add: keys_count_votes)
  let ?mk = "make_record ups ?tp ?tc urls tb"
  have calc: "calc_ranked_records rng rows urls ups = make_records ?mk ranked"
    using n pct rk by (simp add: calc_ranked_records_def Let_def)
  have ok: "\<exists>r. ?mk t = Inr r"
    if t: "t \<in> set ranked" and tu: "t \<in> fst ` set urls" "t \<in> fst ` set ups" for t
  proof -
    from t ranked_keys k2 have tk: "t \<in> fst ` set ?tc" "t \<in> fst ` set ?tp" by auto
    from tu(2) obtain u where u: "lookup ups t = Inr u"
      by (cases "map_of ups t") (auto simp: lookup_def map_of_eq_None_iff)
    from tk(2) obtain p where p: "lookup ?tp t = Inr p"
      by (cases "map_of ?tp t") (auto simp: lookup_def map_of_eq_None_iff)
    from tk(1) obtain c where c: "lookup ?tc t = Inr c"
      by (cases "map_of ?tc t") (auto simp: lookup_def map_of_eq_None_iff)
    from tu(1) obtain url where url: "lookup urls t = Inr url"
      by (cases "map_of urls t") (auto simp: lookup_def map_of_eq_None_iff)
    from props(3) tk(2) obtain b where b: "lookup tb t = Inr b"
      by (auto simp: lookup_def)
    from u p c url b show ?thesis by (simp add: make_record_def)
  qed
  show ?thesis
  proof (cases "make_records ?mk ranked")
    case (Inl e)
    from make_records_Inl[OF Inl] obtain t where t: "t \<in> set ranked" "?mk t = Inl e" by blast
    from make_record_Inl[OF t(2)] have e: "e = KeyError t" .
    from ok[OF t(1)] t(2) have "t \<notin> fst ` set urls \<inter> fst ` set ups" by auto
    with t(1) rv Inl e calc show ?thesis by auto
  next
    case (Inr records)
    have "t \<in> fst ` set urls \<inter> fst ` set ups" if t: "t \<in> voted_titles rows" for t
    proof -
      from t rv have "t \<in> set ranked" by simp
      then obtain i where i: "i < length ranked" "t = ranked ! i"
        by (auto simp: in_set_conv_nth)
      from list_all2_nthD[OF make_records_Inr[OF Inr] i(1)] i(2)
      obtain r where a: "?mk t = Inr r" by simp
      from make_record_Inr(4,5)[OF a] obtain u where
        "map_of urls t = Some (URL r)" "map_of ups t = Some u" by blast
      then have "(t, URL r) \<in> set urls" "(t, u) \<in> set ups"
        by (auto dest: map_of_SomeD)
      then show ?thesis by force
    qed
    with missing show ?thesis by blast
  qed
qed

text \<open>
  Claim C2, as the code has it. A mapping has each key once. When every URL of the
  title-to-URL mapping has an entry in the fetched metadata that is null or a
  dictionary with the key \<^verbatim>\<open>uploader\<close>, every voted title has an entry in the
  title-to-URL mapping, and every ballot is blank or has five or more votes, then
  building the uploaders and the ranked records raises nothing, there is a record for
  each voted title, a title whose metadata is null gets the empty uploader, and a title
  with metadata gets its uploader, or the empty one when that is \<^verbatim>\<open>None\<close>. The first
  URL of the mapping without such an entry makes \<open>get_titles_to_uploaders\<close> raise
  KeyError: for the URL when the metadata has no entry for it, for \<^verbatim>\<open>uploader\<close> when its
  metadata dictionary lacks that key. When every ballot is blank or has five or more
  votes and some voted title has no entry in the title-to-URL mapping or in the
  title-to-uploader mapping, \<open>calc_ranked_records\<close> raises KeyError for such a title.
\<close>

theorem missing_metadata_gives_empty_uploader:
  "(distinct (map fst titles_to_urls)
      \<and> (\<forall>url\<in>snd ` set titles_to_urls. has_metadata_entry videos_data url)
      \<and> voted_titles title_rows \<subseteq> fst ` set titles_to_urls
      \<and> list_all valid_ballot title_rows \<longrightarrow>
      (\<exists>ups records.
         get_titles_to_uploaders titles_to_urls videos_data = Inr ups
       \<and> calc_ranked_records rng title_rows titles_to_urls ups = Inr records
       \<and> set (map Title records) = voted_titles title_rows
       \<and> (\<forall>r\<in>set records. \<forall>url. map_of titles_to_urls (Title r) = Some url \<longrightarrow>
            (map_of videos_data url = Some None \<longrightarrow> Uploader r = PyStr [])
          \<and> (\<forall>vd x. map_of videos_data url = Some (Some vd) \<and> map_of vd ''uploader'' = Some x \<longrightarrow>
                Uploader r = (if x \<noteq> PyNone then x else PyStr [])))))
   \<and> ((\<forall>x\<in>snd ` set pre. has_metadata_entry metadata x) \<and> \<not> has_metadata_entry metadata u \<longrightarrow>
        get_titles_to_uploaders (pre @ (title, u) # post) metadata
          = Inl (KeyError (if map_of metadata u = None then u else ''uploader'')))
   \<and> (list_all valid_ballot rows
        \<and> \<not> voted_titles rows \<subseteq> fst ` set urls \<inter> fst ` set titles_to_uploaders \<longrightarrow>
        (\<exists>t\<in>voted_titles rows. t \<notin> fst ` set urls \<inter> fst ` set titles_to_uploaders
           \<and> calc_ranked_records rng rows urls titles_to_uploaders = Inl (KeyError t)))"
proof (intro conjI impI)
  assume a: "distinct (map fst titles_to_urls)
      \<and> (\<forall>url\<in>snd ` set titles_to_urls. has_metadata_entry videos_data url)
      \<and> voted_titles title_rows \<subseteq> fst ` set titles_to_urls
      \<and> list_all valid_ballot title_rows"
  then have a1: "distinct (map fst titles_to_urls)"
    and a2: "\<forall>url\<in>snd ` set titles_to_urls. has_metadata_entry videos_data url"
    and a3: "voted_titles title_rows \<subseteq> fst ` set titles_to_urls"
    and a4: "list_all valid_ballot title_rows"
    by simp_all
  from titles_to_uploaders_items_Inr[OF a1 a2, of "[]"]
  obtain ups where g: "get_titles_to_uploaders titles_to_urls videos_data = Inr ups"
    and m: "\<And>t. map_of ups t
                  = (case map_of titles_to_urls t of
                       None \<Rightarrow> map_of [] t
                     | Some u \<Rightarrow> Some (case the (map_of videos_data u) of
                                         None \<Rightarrow> PyNone
                                       | Some d \<Rightarrow> the (map_of d ''uploader'')))"
    unfolding get_titles_to_uploaders_def by blast
  have "fst ` set titles_to_urls \<subseteq> fst ` set ups"
  proof
    fix t assume "t \<in> fst ` set titles_to_urls"
    then obtain u where "map_of titles_to_urls t = Some u"
      by (cases "map_of titles_to_urls t") (auto simp: map_of_eq_None_iff)
    with m[of t] have "map_of ups t \<noteq> None" by simp
    then show "t \<in> fst ` set ups" by (simp add: map_of_eq_None_iff)
  qed
  with a3 have k: "fst ` set (count_votes title_rows) \<subseteq> fst ` set ups"
    and k': "fst ` set (count_votes title_rows) \<subseteq> fst ` set titles_to_urls"
    by (auto simp: keys_count_votes)
  from calc_ranked_records_succeeds[OF a4 k' k, of rng]
  obtain records where c: "calc_ranked_records rng title_rows titles_to_urls ups = Inr records"
    by blast
  from calc_ranked_records_titles[OF c]
  have "set (map Title records) = set (map fst (count_votes title_rows))"
    by (metis set_mset_mset)
  then have s: "set (map Title records) = voted_titles title_rows"
    using keys_count_votes[of title_rows] by simp
  have p: "(map_of videos_data u = Some None \<longrightarrow> Uploader r = PyStr [])
             \<and> (\<forall>vd x. map_of videos_data u = Some (Some vd) \<and> map_of vd ''uploader'' = Some x \<longrightarrow>
                   Uploader r = (if x \<noteq> PyNone then x else PyStr []))"
    if r: "r \<in> set records" and u: "map_of titles_to_urls (Title r) = Some u" for r u
  proof -
    from calc_ranked_records_uploader(1)[OF c r] obtain x where
      x: "map_of ups (Title r) = Some x" "Uploader r = (if x \<noteq> PyNone then x else PyStr [])"
      by blast
    from m[of "Title r"] u x(1)
    have "x = (case the (map_of videos_data u) of
                 None \<Rightarrow> PyNone | Some d \<Rightarrow> the (map_of d ''uploader''))"
      by simp
    with x(2) show ?thesis by auto
  qed
  show "\<exists>ups records.
         get_titles_to_uploaders titles_to_urls videos_data = Inr ups
       \<and> calc_ranked_records rng title_rows titles_to_urls ups = Inr records
       \<and> set (map Title records) = voted_titles title_rows
       \<and> (\<forall>r\<in>set records. \<forall>url. map_of titles_to_urls (Title r) = Some url \<longrightarrow>
            (map_of videos_data url = Some None \<longrightarrow> Uploader r = PyStr [])
          \<and> (\<forall>vd x. map_of videos_data url = Some (Some vd) \<and> map_of vd ''uploader'' = Some x \<longrightarrow>
                Uploader r = (if x \<noteq> PyNone then x else PyStr [])))"
    using g c s p by blast
next
  assume "(\<forall>x\<in>snd ` set pre. has_metadata_entry metadata x) \<and> \<not> has_metadata_entry metadata u"
  then show "get_titles_to_uploaders (pre @ (title, u) # post) metadata
          = Inl (KeyError (if map_of metadata u = None then u else ''uploader''))"
    unfolding get_titles_to_uploaders_def
    by (intro titles_to_uploaders_items_KeyError) simp_all
next
  assume "list_all valid_ballot rows
        \<and> \<not> voted_titles rows \<subseteq> fst ` set urls \<inter> fst ` set titles_to_uploaders"
  then show "\<exists>t\<in>voted_titles rows. t \<notin> fst ` set urls \<inter> fst ` set titles_to_uploaders
           \<and> calc_ranked_records rng rows urls titles_to_uploaders = Inl (KeyError t)"
    by (intro calc_ranked_records_missing_key) simp_all
qed

theorem missing_metadata_gives_empty_uploader_witness:
  "(\<exists>ups records.
     get_titles_to_uploaders
       [(''A'', ''ua''), (''B'', ''ub''), (''C'', ''uc''), (''D'', ''ud''), (''E'', ''ue'')]
       [(''ua'', None), (''ub'', Some [(''uploader'', PyStr ''Bob'')]),
        (''uc'', Some [(''uploader'', PyNone)]), (''ud'', None), (''ue'', None)] = Inr ups
     \<and> calc_ranked_records (\<lambda>k. 0) [[''A'', ''B'', ''C'', ''D'', ''E'']]
         [(''A'', ''ua''), (''B'', ''ub''), (''C'', ''uc''), (''D'', ''ud''), (''E'', ''ue'')] ups
         = Inr records
     \<and> map (\<lambda>r. (Title r, Uploader r)) records
         = [(''A'', PyStr []), (''B'', PyStr ''Bob''), (''C'', PyStr []), (''D'', PyStr []),
            (''E'', PyStr [])])
   \<and> get_titles_to_uploaders [(''A'', ''ua''), (''B'', ''ub''), (''C'', ''uc'')] [(''ua'', None)]
       = Inl (KeyError ''ub'')
   \<and> get_titles_to_uploaders [(''A'', ''ua''), (''B'', ''ub'')] [(''ua'', None), (''ub'', Some [])]
       = Inl (KeyError ''uploader'')
   \<and> calc_ranked_records (\<lambda>k. 0) [[''A'', ''B'', ''C'', ''D'', ''E'']]
       [(''A'', ''ua''), (''B'', ''ub''), (''C'', ''uc''), (''D'', ''ud''), (''E'', ''ue'')]
       [(''B'', PyNone), (''C'', PyNone), (''D'', PyNone), (''E'', PyNone)]
       = Inl (KeyError ''A'')"
proof -
  let ?urls = "[(''A'', ''ua''), (''B'', ''ub''), (''C'', ''uc''), (''D'', ''ud''), (''E'', ''ue'')]"
  let ?vd = "[(''ua'', None), (''ub'', Some [(''uploader'', PyStr ''Bob'')]),
        (''uc'', Some [(''uploader'', PyNone)]), (''ud'', None), (''ue'', None)]
               :: (string, info option) dict"
  let ?rows = "[[''A'', ''B'', ''C'', ''D'', ''E'']]"
  let ?ups = "[(''A'', PyNone), (''B'', PyStr ''Bob''), (''C'', PyNone), (''D'', PyNone),
               (''E'', PyNone)]"
  let ?short = "[(''B'', PyNone), (''C'', PyNone), (''D'', PyNone), (''E'', PyNone)]"
  let ?out = "[(''A'', PyStr []), (''B'', PyStr ''Bob''), (''C'', PyStr []), (''D'', PyStr []),
            (''E'', PyStr [])]"
  note base = missing_metadata_gives_empty_uploader
  have h1: "distinct (map fst ?urls)" by simp
  have h2: "\<forall>url\<in>snd ` set ?urls. has_metadata_entry ?vd url"
    by (simp add: has_metadata_entry_def)
  have vt: "voted_titles ?rows = {''A'', ''B'', ''C'', ''D'', ''E''}"
    by (auto simp: voted_titles_def)
  have h3: "voted_titles ?rows \<subseteq> fst ` set ?urls" unfolding vt by simp
  have h4: "list_all valid_ballot ?rows" by (simp add: valid_ballot_def vote_count_of_def)
  from base [where titles_to_urls="?urls" and videos_data="?vd" and title_rows="?rows"
      and rng="\<lambda>k. 0" and pre="[]" and metadata="[]" and u="[]" and title="[]" and post="[]"
      and rows="[]" and urls="[]" and titles_to_uploaders="[]",
      THEN conjunct1, THEN mp, OF conjI[OF h1 conjI[OF h2 conjI[OF h3 h4]]]]
  have a: "\<exists>ups records.
     get_titles_to_uploaders ?urls ?vd = Inr ups
     \<and> calc_ranked_records (\<lambda>k. 0) ?rows ?urls ups = Inr records
     \<and> map (\<lambda>r. (Title r, Uploader r)) records = ?out"
  proof (elim exE conjE)
    fix ups records
    assume g: "get_titles_to_uploaders ?urls ?vd = Inr ups"
      and c: "calc_ranked_records (\<lambda>k. 0) ?rows ?urls ups = Inr records"
    have "get_titles_to_uploaders ?urls ?vd = Inr ?ups" by code_simp
    with g have ups: "ups = ?ups" by simp
    have ev: "map_sum id (map (\<lambda>r. (Title r, Uploader r)))
                (calc_ranked_records (\<lambda>k. 0) ?rows ?urls ?ups) = Inr ?out"
      by code_simp
    have m: "map (\<lambda>r. (Title r, Uploader r)) records = ?out"
      using ev c unfolding ups by simp
    show ?thesis
      by (rule exI[where x=ups], rule exI[where x=records]) (rule conjI[OF g conjI[OF c m]])
  qed
  have p1: "(\<forall>x\<in>snd ` set [(''A'', ''ua'')]. has_metadata_entry [(''ua'', None)] x)
              \<and> \<not> has_metadata_entry [(''ua'', None)] ''ub''"
    by (simp add: has_metadata_entry_def)
  from base [where titles_to_urls="[]" and videos_data="[]" and title_rows="[]"
      and rng="\<lambda>k. 0" and pre="[(''A'', ''ua'')]" and metadata="[(''ua'', None)]" and u="''ub''"
      and title="''B''" and post="[(''C'', ''uc'')]"
      and rows="[]" and urls="[]" and titles_to_uploaders="[]",
      THEN conjunct2, THEN conjunct1, THEN mp, OF p1]
  have b: "get_titles_to_uploaders [(''A'', ''ua''), (''B'', ''ub''), (''C'', ''uc'')] [(''ua'', None)]
       = Inl (KeyError ''ub'')"
    by simp
  have p2: "(\<forall>x\<in>snd ` set [(''A'', ''ua'')]. has_metadata_entry [(''ua'', None), (''ub'', Some [])] x)
              \<and> \<not> has_metadata_entry [(''ua'', None), (''ub'', Some [])] ''ub''"
    by (simp add: has_metadata_entry_def)
  from base [where titles_to_urls="[]" and videos_data="[]" and title_rows="[]"
      and rng="\<lambda>k. 0" and pre="[(''A'', ''ua'')]" and metadata="[(''ua'', None), (''ub'', Some [])]"
      and u="''ub''" and title="''B''" and post="[]"
      and rows="[]" and urls="[]" and titles_to_uploaders="[]",
      THEN conjunct2, THEN conjunct1, THEN mp, OF p2]
  have b': "get_titles_to_uploaders [(''A'', ''ua''), (''B'', ''ub'')]
              [(''ua'', None), (''ub'', Some [])]
       = Inl (KeyError ''uploader'')"
    by simp
  have p3: "list_all valid_ballot ?rows
        \<and> \<not> voted_titles ?rows \<subseteq> fst ` set ?urls \<inter> fst ` set ?short"
    unfolding vt by (simp add: valid_ballot_def vote_count_of_def)
  from base [where titles_to_urls="[]" and videos_data="[]" and title_rows="[]"
      and rng="\<lambda>k. 0" and pre="[]" and metadata="[]" and u="[]" and title="[]" and post="[]"
      and rows="?rows" and urls="?urls" and titles_to_uploaders="?short",
      THEN conjunct2, THEN conjunct2, THEN mp, OF p3]
  have c: "calc_ranked_records (\<lambda>k. 0) ?rows ?urls ?short = Inl (KeyError ''A'')"
  proof (elim bexE conjE)
    fix t
    assume m: "t \<notin> fst ` set ?urls \<inter> fst ` set ?short"
      and e: "calc_ranked_records (\<lambda>k. 0) ?rows ?urls ?short = Inl (KeyError t)"
      and t: "t \<in> voted_titles ?rows"
    from t m have "t = ''A''" unfolding vt by simp
    with e show ?thesis by simp
  qed
  show ?thesis by (rule conjI[OF a conjI[OF b conjI[OF b' c]]])
qed

text \<open>
  A voted title with no entry in the title-to-URL mapping, or in the uploaders built
  from it, a URL with no entry in the fetched metadata, and a metadata dictionary
  without the key \<^verbatim>\<open>uploader\<close>, each raise KeyError.
\<close>

theorem missing_url_or_metadata_raises:
  "calc_ranked_records (\<lambda>k. 0) [[''A'', ''B'', ''C'', ''D'', ''E'']] []
     [(''A'', PyNone), (''B'', PyNone), (''C'', PyNone), (''D'', PyNone), (''E'', PyNone)]
     = Inl (KeyError ''A'')
   \<and> calc_ranked_records (\<lambda>k. 0) [[''A'', ''B'', ''C'', ''D'', ''E'']] [] []
     = Inl (KeyError ''A'')
   \<and> get_titles_to_uploaders [(''A'', ''ua'')] [] = Inl (KeyError ''ua'')
   \<and> get_titles_to_uploaders [(''A'', ''ua'')] [(''ua'', Some [])] = Inl (KeyError ''uploader'')"
  by code_simp


section \<open>Title-to-URL mapping\<close>

lemma titles_to_urls_rows_count_mismatch:
  "length title_rows \<noteq> length url_rows \<Longrightarrow> \<exists>e. titles_to_urls_rows title_rows url_rows d = Inl e"
  by (induction title_rows url_rows d rule: titles_to_urls_rows.induct) auto

lemma titles_to_urls_rows_same_count:
  "length title_rows = length url_rows \<Longrightarrow>
   titles_to_urls_rows title_rows url_rows d
     = Inr (fold (\<lambda>(title, url) d. dict_set title url d)
              (concat (map (\<lambda>(title_row, url_row). zip title_row url_row) (zip title_rows url_rows))) d)"
  by (induction title_rows url_rows d rule: titles_to_urls_rows.induct) auto

text \<open>
  Claim C8. Tables with different numbers of rows make \<open>get_titles_to_urls_mapping\<close>
  fail, and tables of the same shape give the positional pairing (the two lemmas above).
  But rows of different lengths do not fail: for the title row a, b and the URL row u
  the function returns the mapping of a to u and drops b.
\<close>

theorem get_titles_to_urls_mapping_unequal_row:
  "\<not> same_shape [[''a'', ''b'']] [[''u'']]
   \<and> get_titles_to_urls_mapping [[''a'', ''b'']] [[''u'']] = Inr [(''a'', ''u'')]
   \<and> get_titles_to_urls_mapping [[''a'', ''b'']] [[''u'', ''v''], [''w'']]
       = Inl (ValueError ''zip() argument 2 is longer than argument 1'')"
  by (simp add: same_shape_def get_titles_to_urls_mapping_def)

section \<open>Anniversaries\<close>

lemma new_datetime_first_instant:
  "1 \<le> m \<Longrightarrow> m \<le> 12 \<Longrightarrow> 1 \<le> y \<Longrightarrow> y \<le> 9999 \<Longrightarrow>
   new_datetime y m 1 0 0 0 tz = Inr (first_instant y m tz)"
  using days_in_month_ge[of y m] by (simp add: new_datetime_def first_instant_def)

text \<open>
  With every target year that has no bucket inside the years a datetime can hold, the
  lookup answers each offset that has a bucket, omits the others and records one
  diagnostic for each of them.
\<close>

lemma history_loop_in_range:
  assumes "1 \<le> month" "month \<le> 12"
    and "\<forall>n\<in>set ns. map_of idx (month, year - n) = None \<longrightarrow> 1 \<le> year - n \<and> year - n \<le> 9999"
  shows "\<exists>h' d'. history_loop month year idx ns (h, d) = Inr (h', d')
           \<and> (\<forall>n. map_of h' n = (if n \<in> set ns \<and> map_of idx (month, year - n) \<noteq> None
                                   then map_of idx (month, year - n) else map_of h n))
           \<and> d' = d @ map (\<lambda>n. NoHistoricalEntries (first_instant (year - n) month None))
                         (filter (\<lambda>n. map_of idx (month, year - n) = None) ns)"
  using assms(3)
proof (induction ns arbitrary: h d)
  case Nil
  then show ?case by simp
next
  case (Cons n ns)
  from Cons.prems have rest: "\<forall>n\<in>set ns. map_of idx (month, year - n) = None
      \<longrightarrow> 1 \<le> year - n \<and> year - n \<le> 9999" by simp
  show ?case
  proof (cases "map_of idx (month, year - n)")
    case None
    with Cons.prems have "1 \<le> year - n" "year - n \<le> 9999" by simp_all
    with assms(1,2) have nd: "new_datetime (year - n) month 1 0 0 0 None
        = Inr (first_instant (year - n) month None)"
      by (intro new_datetime_first_instant)
    from Cons.IH[OF rest, of h "d @ [NoHistoricalEntries (first_instant (year - n) month None)]"]
    obtain h' d' where
      "history_loop month year idx ns
         (h, d @ [NoHistoricalEntries (first_instant (year - n) month None)]) = Inr (h', d')"
      "\<forall>k. map_of h' k = (if k \<in> set ns \<and> map_of idx (month, year - k) \<noteq> None
                                   then map_of idx (month, year - k) else map_of h k)"
      "d' = (d @ [NoHistoricalEntries (first_instant (year - n) month None)])
             @ map (\<lambda>n. NoHistoricalEntries (first_instant (year - n) month None))
                         (filter (\<lambda>n. map_of idx (month, year - n) = None) ns)"
      by blast
    with None nd show ?thesis by (auto simp: Let_def)
  next
    case (Some bucket)
    from Cons.IH[OF rest, of "dict_set n bucket h" d]
    obtain h' d' where
      "history_loop month year idx ns (dict_set n bucket h, d) = Inr (h', d')"
      "\<forall>k. map_of h' k = (if k \<in> set ns \<and> map_of idx (month, year - k) \<noteq> None
                                   then map_of idx (month, year - k) else map_of (dict_set n bucket h) k)"
      "d' = d @ map (\<lambda>n. NoHistoricalEntries (first_instant (year - n) month None))
                         (filter (\<lambda>n. map_of idx (month, year - n) = None) ns)"
      by blast
    with Some show ?thesis by (auto simp: Let_def map_of_dict_set)
  qed
qed

text \<open>
  Claim C7. For the archive and the offsets of the specification the lookup answers the
  five-year anniversary and records a diagnostic for the ten-year one. But an offset
  whose target year lies outside the years 1 to 9999 and has no bucket makes the lookup
  raise ValueError, and the offsets after it are not answered: from April 2024, the
  offsets 2024 and 5 give no result at all.
\<close>

theorem get_history_offset_out_of_range:
  "get_history [archive_entry ''4'' ''2019'' ''Title''] (first_instant 2024 4 None) [5, 10]
     = Inr ([(5, [archive_entry ''4'' ''2019'' ''Title''])],
            [NoHistoricalEntries (first_instant 2014 4 None)])
   \<and> get_history [archive_entry ''4'' ''2019'' ''Title''] (first_instant 2024 4 None) [2024, 5]
     = Inl (ValueError ''year is out of range'')"
  by code_simp

section \<open>The generic extraction fetch service\<close>












end
